theory Spec2Isabelle
  imports Main "HOL-Library.Word"
begin

unbundle bit_operations_syntax

section \<open>Data model of the ext2 driver (ext2fs.cpp)\<close>

text \<open>
  The driver is embedded shallowly. Sizes, offsets and counts that the source holds in
  64-bit variables (\<^verbatim>\<open>size_t\<close>, \<^verbatim>\<open>uint64_t\<close>, \<^verbatim>\<open>uintptr_t\<close>) are naturals; the
  32-bit, 16-bit and 8-bit quantities read from disk are words. Where the source can
  wrap around (the subtraction in \<^verbatim>\<open>manageFileData\<close>, the 32-bit arithmetic of
  \<^verbatim>\<open>initiateInode\<close> and \<^verbatim>\<open>manageIndirect\<close>) the wrap is written out. In
  \<^verbatim>\<open>readData\<close> the sum \<^verbatim>\<open>offset + progress\<close> is asserted to be below \<^verbatim>\<open>d_range\<close>
  in every iteration and a fused run never leaves its table, so that sum stays far
  below \<open>2^64\<close> and is modelled without a wrap.

  Memory is byte addressed: a memory object, a mapped window, the block device and the
  caller's buffer are functions from byte addresses to bytes. The machine is little
  endian (x86-64).
\<close>

type_synonym byte = "8 word"
type_synonym u16 = "16 word"
type_synonym u32 = "32 word"
type_synonym memory = "nat \<Rightarrow> byte"

definition pageShift :: nat where
  "pageShift = 12"

definition pageSize :: nat where
  "pageSize = push_bit pageShift 1"

text \<open>Every failed \<^verbatim>\<open>assert\<close> and every \<^verbatim>\<open>abort\<close> of the source ends the process; the
  model returns an error value instead, named after the error kinds of section 7 of the
  specification. The kernel calls under \<^verbatim>\<open>HEL_CHECK\<close> and the sector reads are taken to
  succeed.\<close>

datatype error =
    GeometryInvalid
  | UnsupportedInodeType
  | TripleIndirectUnsupported
  | HoleEncountered
  | AlignmentViolation
  | DirectoryCorrupt
  | UnexpectedOffset
  | InvalidName

datatype FileType = kTypeNone | kTypeRegular | kTypeDirectory | kTypeSymlink

text \<open>The handles of one inode: the file-data pair, and the frontal and backing
  halves of the two indirect-block caches.\<close>

datatype handle =
    backingMemory | frontalMemory
  | backingOrder1 | indirectOrder1
  | backingOrder2 | indirectOrder2

text \<open>What a routine asks of its collaborators (block device, kernel), in order.\<close>

datatype event =
    ReadSectors nat nat nat
  | LockMemory handle nat nat
  | MapMemory handle nat nat
  | CompleteLoad handle nat nat
  | UnmapMemory nat nat

text \<open>The fields of \<^verbatim>\<open>DiskSuperblock\<close> that \<^verbatim>\<open>FileSystem::init\<close> reads.\<close>

record DiskSuperblock =
  magic :: u16
  inodeSize_sb :: u16
  logBlockSize :: u32
  blocksCount :: u32
  blocksPerGroup :: u32
  inodesPerGroup_sb :: u32

record FileSystem =
  inodeSize :: nat
  blockShift :: nat
  blockSize :: nat
  blockPagesShift :: nat
  sectorsPerBlock :: nat
  numBlockGroups :: nat
  inodesPerGroup :: nat

text \<open>\<^verbatim>\<open>FileSystem::init\<close>, the geometry it derives from the superblock \<open>sb\<close> that it
  copies out of the two sectors at LBA 2. A wrong magic number fails the assertion and a
  zero \<^verbatim>\<open>blocksPerGroup\<close> traps in the division. The shift \<^verbatim>\<open>1024 << sb.logBlockSize\<close>
  is an \<^verbatim>\<open>int\<close> expression, defined for \<open>logBlockSize \<le> 20\<close>. The fields of
  \<^verbatim>\<open>FileSystem\<close> are declared in ext2fs.hpp, which is not among the sources; the
  theorems on the derived geometry assume \<open>logBlockSize \<le> 6\<close>, the block sizes of the
  ext2 format (1 KiB to 64 KiB), for which every derived quantity is below \<open>2^31\<close>
  whatever the declared widths.\<close>

definition init :: "DiskSuperblock \<Rightarrow> error + FileSystem" where
  "init sb =
     (if magic sb \<noteq> 0xEF53 then Inl GeometryInvalid
      else if blocksPerGroup sb = 0 then Inl GeometryInvalid
      else
        let bshift = 10 + unat (logBlockSize sb);
            bsize = push_bit (unat (logBlockSize sb)) 1024
        in Inr \<lparr> inodeSize = unat (inodeSize_sb sb),
                 blockShift = bshift,
                 blockSize = bsize,
                 blockPagesShift = (if bshift < pageShift then pageShift else bshift),
                 sectorsPerBlock = bsize div 512,
                 numBlockGroups = unat (blocksCount sb) div unat (blocksPerGroup sb),
                 inodesPerGroup = unat (inodesPerGroup_sb sb) \<rparr>)"

text \<open>The \<^verbatim>\<open>i_block\<close> area of an inode.\<close>

record FileData =
  direct :: "u32 list"
  singleIndirect :: u32
  doubleIndirect :: u32
  tripleIndirect :: u32

text \<open>The \<^verbatim>\<open>uint32_t\<close> at index \<open>i\<close> of a window that maps a memory object from
  byte offset \<open>off\<close>: \<^verbatim>\<open>reinterpret_cast<uint32_t *>(map.get())[i]\<close>.\<close>

definition mapped_u32 :: "memory \<Rightarrow> nat \<Rightarrow> nat \<Rightarrow> u32" where
  "mapped_u32 mem off i =
     word_rcat [mem (off + 4 * i + 3), mem (off + 4 * i + 2),
                mem (off + 4 * i + 1), mem (off + 4 * i)]"

section \<open>The block mapper: FileSystem::readData\<close>

text \<open>The lambda \<^verbatim>\<open>fuse\<close>. The comparison \<^verbatim>\<open>list[index + n] != list[index] + n\<close> is
  carried out in \<^verbatim>\<open>size_t\<close>, so the right-hand side does not wrap at 32 bits.\<close>

function fuse_loop :: "nat \<Rightarrow> nat \<Rightarrow> (nat \<Rightarrow> u32) \<Rightarrow> nat \<Rightarrow> nat \<Rightarrow> nat" where
  "fuse_loop index remaining list limit n =
     (if n < remaining \<and> index + n < limit then
        (if unat (list (index + n)) \<noteq> unat (list index) + n then n
         else fuse_loop index remaining list limit (n + 1))
      else n)"
  by pat_completeness auto
termination
  by (relation "measure (\<lambda>(index, remaining, list, limit, n). remaining - n)") auto

declare fuse_loop.simps [simp del]

definition fuse :: "nat \<Rightarrow> nat \<Rightarrow> (nat \<Rightarrow> u32) \<Rightarrow> nat \<Rightarrow> nat \<times> nat" where
  "fuse index remaining list limit =
     (unat (list index), fuse_loop index remaining list limit 1)"

text \<open>The \<open>m\<close> entries of a table from \<open>index\<close> on hold consecutive block numbers.\<close>

definition contig :: "(nat \<Rightarrow> u32) \<Rightarrow> nat \<Rightarrow> nat \<Rightarrow> bool" where
  "contig list index m = (\<forall>k<m. unat (list (index + k)) = unat (list index) + k)"

definition per_indirect :: "FileSystem \<Rightarrow> nat" where
  "per_indirect fs = blockSize fs div 4"

definition i_range :: nat where
  "i_range = 12"

definition s_range :: "FileSystem \<Rightarrow> nat" where
  "s_range fs = i_range + per_indirect fs"

definition d_range :: "FileSystem \<Rightarrow> nat" where
  "d_range fs = s_range fs + per_indirect fs * per_indirect fs"

text \<open>The body of the loop of \<^verbatim>\<open>readData\<close> below the assertion \<^verbatim>\<open>index < d_range\<close>:
  the locks and mappings it requests and the pair \<^verbatim>\<open>issue\<close> it computes.
  \<open>mem1\<close> and \<open>mem2\<close> are the contents of the memory objects \<^verbatim>\<open>indirectOrder1\<close> and
  \<^verbatim>\<open>indirectOrder2\<close>, as seen once the lock has made the range resident.\<close>

definition readData_issue ::
  "FileSystem \<Rightarrow> FileData \<Rightarrow> memory \<Rightarrow> memory \<Rightarrow> nat \<Rightarrow> nat \<Rightarrow> event list \<times> (nat \<times> nat)" where
  "readData_issue fs fd mem1 mem2 index remaining =
     (if index \<ge> s_range fs then
        let indirect_frame = drop_bit (blockShift fs - 2) (index - s_range fs);
            indirect_index = (index - s_range fs) AND (push_bit (blockShift fs - 2) 1 - 1);
            map_offset = push_bit (blockPagesShift fs) indirect_frame;
            map_length = push_bit (blockPagesShift fs) 1
        in ([LockMemory indirectOrder2 map_offset map_length,
             MapMemory indirectOrder2 map_offset map_length],
            fuse indirect_index remaining (mapped_u32 mem2 map_offset) (per_indirect fs))
      else if index \<ge> i_range then
        let map_length = push_bit (blockPagesShift fs) 1
        in ([LockMemory indirectOrder1 0 map_length,
             MapMemory indirectOrder1 0 map_length],
            fuse (index - i_range) remaining (mapped_u32 mem1 0) (per_indirect fs))
      else ([], fuse index remaining (\<lambda>i. direct fd ! i) 12))"

lemma fuse_loop_ge: "n \<le> fuse_loop index remaining list limit n"
proof (induction index remaining list limit n rule: fuse_loop.induct)
  case (1 index remaining list limit n)
  show ?case
  proof (cases "n < remaining \<and> index + n < limit
      \<and> unat (list (index + n)) = unat (list index) + n")
    case True
    with "1.IH" have "n + 1 \<le> fuse_loop index remaining list limit (n + 1)"
      by simp
    with True show ?thesis
      by (subst fuse_loop.simps) simp
  next
    case False
    then show ?thesis
      by (subst fuse_loop.simps) auto
  qed
qed

lemma fuse_count_pos: "0 < snd (fuse index remaining list limit)"
  using fuse_loop_ge [of 1 index remaining list limit] by (simp add: fuse_def)

lemma readData_issue_count_pos: "0 < snd (snd (readData_issue fs fd mem1 mem2 index remaining))"
  by (simp add: readData_issue_def Let_def fuse_count_pos)

text \<open>One iteration of the loop, as it is observed: the value of \<^verbatim>\<open>progress\<close> at its
  start, the locks and mappings requested, and the pair \<^verbatim>\<open>issue\<close>.\<close>

record iteration =
  it_progress :: nat
  it_locks :: "event list"
  it_issue :: "nat \<times> nat"

text \<open>The loop of \<^verbatim>\<open>readData\<close>, from a given value of \<^verbatim>\<open>progress\<close>. It returns the
  iterations that computed \<^verbatim>\<open>issue\<close> and how the loop ended: by an assertion, or
  normally. An iteration stopped by \<^verbatim>\<open>assert(issue.first != 0)\<close> is the last one
  of the list and reads no sectors.\<close>

function readData_loop ::
  "FileSystem \<Rightarrow> FileData \<Rightarrow> memory \<Rightarrow> memory \<Rightarrow> nat \<Rightarrow> nat \<Rightarrow> nat
     \<Rightarrow> iteration list \<times> (error + unit)" where
  "readData_loop fs fd mem1 mem2 offset num_blocks progress =
     (if progress < num_blocks then
        let index = offset + progress in
        if \<not> index < d_range fs then ([], Inl TripleIndirectUnsupported)
        else
          let (locks, issue) = readData_issue fs fd mem1 mem2 index (num_blocks - progress);
              it = \<lparr> it_progress = progress, it_locks = locks, it_issue = issue \<rparr>
          in
          if fst issue = 0 then ([it], Inl HoleEncountered)
          else
            let (rest, r) = readData_loop fs fd mem1 mem2 offset num_blocks (progress + snd issue)
            in (it # rest, r)
      else ([], Inr ()))"
  by pat_completeness auto
termination
proof (relation "measure (\<lambda>(fs, fd, mem1, mem2, offset, num_blocks, progress). num_blocks - progress)")
  show "wf (measure (\<lambda>(fs, fd, mem1, mem2, offset, num_blocks, progress). num_blocks - progress))"
    by simp
next
  fix fs :: FileSystem and fd :: FileData and mem1 mem2 :: memory
    and offset num_blocks progress index :: nat
    and x :: "event list \<times> (nat \<times> nat)" and locks :: "event list" and issue :: "nat \<times> nat"
  assume lt: "progress < num_blocks"
    and "index = offset + progress"
    and x: "x = readData_issue fs fd mem1 mem2 index (num_blocks - progress)"
    and xy: "(locks, issue) = x"
  have "0 < snd issue"
    using readData_issue_count_pos [of fs fd mem1 mem2 index "num_blocks - progress"] x xy
    by (metis snd_conv)
  with lt show "((fs, fd, mem1, mem2, offset, num_blocks, progress + snd issue),
      (fs, fd, mem1, mem2, offset, num_blocks, progress)) \<in>
      measure (\<lambda>(fs, fd, mem1, mem2, offset, num_blocks, progress). num_blocks - progress)"
    by simp
qed

declare readData_loop.simps [simp del]

text \<open>The kernel requests and the device read of one iteration: the sector read is
  \<^verbatim>\<open>readSectors(issue.first * sectorsPerBlock, buffer + progress * blockSize,
  issue.second * sectorsPerBlock)\<close>, behind the assertion \<^verbatim>\<open>issue.first != 0\<close>.
  \<open>buffer\<close> is the address the caller passed.\<close>

definition iteration_events :: "FileSystem \<Rightarrow> nat \<Rightarrow> iteration \<Rightarrow> event list" where
  "iteration_events fs buffer it =
     it_locks it @
     (if fst (it_issue it) = 0 then []
      else [ReadSectors (fst (it_issue it) * sectorsPerBlock fs)
                        (buffer + it_progress it * blockSize fs)
                        (snd (it_issue it) * sectorsPerBlock fs)])"

definition readData ::
  "FileSystem \<Rightarrow> FileData \<Rightarrow> memory \<Rightarrow> memory \<Rightarrow> nat \<Rightarrow> nat \<Rightarrow> nat
     \<Rightarrow> event list \<times> (error + unit)" where
  "readData fs fd mem1 mem2 offset num_blocks buffer =
     (let (its, r) = readData_loop fs fd mem1 mem2 offset num_blocks 0
      in (concat (map (iteration_events fs buffer) its), r))"


text \<open>Modelled from the spec: \<^verbatim>\<open>BlockDevice::readSectors\<close> is an external collaborator
  (section 2: read N 512-byte sectors starting at a given LBA into a caller buffer). The
  device is the byte sequence \<open>dev\<close>; the call copies \<open>count\<close> sectors from sector
  \<open>sector\<close> to the addresses from \<open>buf\<close> on.\<close>

definition readSectors :: "memory \<Rightarrow> nat \<Rightarrow> nat \<Rightarrow> nat \<Rightarrow> memory \<Rightarrow> memory" where
  "readSectors dev sector buf count mem =
     (\<lambda>a. if buf \<le> a \<and> a < buf + count * 512 then dev (sector * 512 + (a - buf)) else mem a)"

text \<open>The memory after the sector reads of a list of events, in order.\<close>

fun deliver :: "memory \<Rightarrow> event list \<Rightarrow> memory \<Rightarrow> memory" where
  "deliver dev [] mem = mem"
| "deliver dev (ReadSectors sector buf count # es) mem =
     deliver dev es (readSectors dev sector buf count mem)"
| "deliver dev (e # es) mem = deliver dev es mem"

text \<open>Reading the same logical blocks one at a time, in the same order: block \<open>j\<close> of the
  request is read by \<^verbatim>\<open>readData(inode, offset + j, 1, buffer + j * blockSize)\<close>; the first
  assertion that fails ends the sequence.\<close>

fun per_block_reads ::
  "FileSystem \<Rightarrow> FileData \<Rightarrow> memory \<Rightarrow> memory \<Rightarrow> nat \<Rightarrow> nat \<Rightarrow> nat \<Rightarrow> nat
     \<Rightarrow> event list \<times> (error + unit)" where
  "per_block_reads fs fd mem1 mem2 offset buffer j 0 = ([], Inr ())"
| "per_block_reads fs fd mem1 mem2 offset buffer j (Suc c) =
     (case readData fs fd mem1 mem2 (offset + j) 1 (buffer + j * blockSize fs) of
        (evs, Inl e) \<Rightarrow> (evs, Inl e)
      | (evs, Inr u) \<Rightarrow>
          (case per_block_reads fs fd mem1 mem2 offset buffer (Suc j) c of
             (evs', r) \<Rightarrow> (evs @ evs', r)))"

subsection \<open>The mapping and the fusion constraints, in the words of the specification\<close>

text \<open>The unit in which the indirect caches are laid out and locked, the specification's
  \<open>page\<close>: \<^verbatim>\<open>1 << blockPagesShift\<close> bytes. It is the 4096-byte hardware page for block
  sizes up to 4096.\<close>

definition slot_size :: "FileSystem \<Rightarrow> nat" where
  "slot_size fs = 2 ^ blockPagesShift fs"

text \<open>Section 4.4: the physical block of logical block \<open>L\<close>.\<close>

definition physical_block :: "FileSystem \<Rightarrow> FileData \<Rightarrow> memory \<Rightarrow> memory \<Rightarrow> nat \<Rightarrow> u32" where
  "physical_block fs fd mem1 mem2 L =
     (if L < 12 then direct fd ! L
      else if L < s_range fs then mapped_u32 mem1 0 (L - 12)
      else mapped_u32 mem2 (((L - s_range fs) div per_indirect fs) * slot_size fs)
             ((L - s_range fs) mod per_indirect fs))"

text \<open>Section 4.4: the lock and the mapping that obtain the table of logical block \<open>L\<close>.\<close>

definition block_locks :: "FileSystem \<Rightarrow> nat \<Rightarrow> event list" where
  "block_locks fs L =
     (if L < 12 then []
      else if L < s_range fs then
        [LockMemory indirectOrder1 0 (slot_size fs), MapMemory indirectOrder1 0 (slot_size fs)]
      else
        [LockMemory indirectOrder2 (((L - s_range fs) div per_indirect fs) * slot_size fs)
           (slot_size fs),
         MapMemory indirectOrder2 (((L - s_range fs) div per_indirect fs) * slot_size fs)
           (slot_size fs)])"

text \<open>The range bucket of a logical block: 0 direct, 1 single indirect, 2 double indirect,
  3 beyond \<open>d_range\<close>.\<close>

definition bucket :: "FileSystem \<Rightarrow> nat \<Rightarrow> nat" where
  "bucket fs L =
     (if L < 12 then 0 else if L < s_range fs then 1 else if L < d_range fs then 2 else 3)"

text \<open>The backing table of the bucket of \<open>L\<close> (direct array, single-indirect page, or the
  double-indirect leaf page of \<open>L\<close>), the position of \<open>L\<close> in it, and its number of
  entries.\<close>

definition backing_table :: "FileSystem \<Rightarrow> FileData \<Rightarrow> memory \<Rightarrow> memory \<Rightarrow> nat \<Rightarrow> nat \<Rightarrow> u32" where
  "backing_table fs fd mem1 mem2 L =
     (if L < 12 then (\<lambda>i. direct fd ! i)
      else if L < s_range fs then mapped_u32 mem1 0
      else mapped_u32 mem2 (((L - s_range fs) div per_indirect fs) * slot_size fs))"

definition table_index :: "FileSystem \<Rightarrow> nat \<Rightarrow> nat" where
  "table_index fs L =
     (if L < 12 then L
      else if L < s_range fs then L - 12
      else (L - s_range fs) mod per_indirect fs)"

definition table_limit :: "FileSystem \<Rightarrow> nat \<Rightarrow> nat" where
  "table_limit fs L = (if L < 12 then 12 else per_indirect fs)"

text \<open>Section 4.4, read fusion: a run of \<open>n\<close> blocks from \<open>L\<close> satisfies (a) every block of
  it lies in the bucket of \<open>L\<close>, (b) the table entries are contiguous, (c) it does not
  cross the end of the table.\<close>

definition fusible :: "FileSystem \<Rightarrow> FileData \<Rightarrow> memory \<Rightarrow> memory \<Rightarrow> nat \<Rightarrow> nat \<Rightarrow> bool" where
  "fusible fs fd mem1 mem2 L n =
     (1 \<le> n
      \<and> (\<forall>k<n. bucket fs (L + k) = bucket fs L)
      \<and> (\<forall>k<n. unat (backing_table fs fd mem1 mem2 L (table_index fs L + k))
                 = unat (backing_table fs fd mem1 mem2 L (table_index fs L)) + k)
      \<and> table_index fs L + n \<le> table_limit fs L)"


section \<open>The page-in handlers\<close>

text \<open>\<^verbatim>\<open>(n + 0xFFF) & ~size_t(0xFFF)\<close>, the size of the page cache of a file of \<open>n\<close>
  bytes.\<close>

definition cache_size :: "nat \<Rightarrow> nat" where
  "cache_size n = unat ((word_of_nat n + 0xFFF :: 64 word) AND NOT 0xFFF)"

text \<open>Sections 4.4 and 4.5: \<open>ceil(a, b)\<close>, the number of blocks of \<open>b\<close> bytes that hold \<open>a\<close>
  bytes.\<close>

definition ceil_div :: "nat \<Rightarrow> nat \<Rightarrow> nat" where
  "ceil_div a b = (a + b - 1) div b"

text \<open>One round of the loop of \<^verbatim>\<open>manageFileData\<close>, for the manage event
  \<open>(offset, length)\<close>. \<open>window\<close> is the address at which \<^verbatim>\<open>helMapMemory\<close> maps the
  range. The difference \<^verbatim>\<open>fileSize - manage.offset()\<close> and the sum
  \<^verbatim>\<open>manage.offset() + manage.length()\<close> are unsigned 64-bit and wrap around. The block
  size of an initialised file system is never zero, so the divisions do not trap.\<close>

definition manageFileData_event ::
  "FileSystem \<Rightarrow> FileData \<Rightarrow> nat \<Rightarrow> memory \<Rightarrow> memory \<Rightarrow> nat \<Rightarrow> nat \<times> nat
     \<Rightarrow> event list \<times> (error + unit)" where
  "manageFileData_event fs fd fsize mem1 mem2 window ev =
     (let offset = fst ev; length = snd ev in
      if \<not> (offset + length) mod 2 ^ 64 \<le> cache_size fsize then ([], Inl AlignmentViolation)
      else
        let mapping = [MapMemory backingMemory offset length];
            read_size = min length (nat ((int fsize - int offset) mod 2 ^ 64));
            num_blocks = read_size div blockSize fs
                         + (if read_size mod blockSize fs \<noteq> 0 then 1 else 0)
        in
        if \<not> offset mod blockSize fs = 0 then (mapping, Inl AlignmentViolation)
        else if \<not> num_blocks * blockSize fs \<le> length then (mapping, Inl AlignmentViolation)
        else
          (case readData fs fd mem1 mem2 (offset div blockSize fs) num_blocks window of
             (evs, Inl e) \<Rightarrow> (mapping @ evs, Inl e)
           | (evs, Inr u) \<Rightarrow>
               (mapping @ evs @ [CompleteLoad backingMemory offset length,
                                 UnmapMemory window length], Inr ())))"

text \<open>One round of the loop of \<^verbatim>\<open>manageIndirect\<close>, for the manage event
  \<open>(offset, length)\<close> on the backing handle \<open>memory\<close>. \<^verbatim>\<open>element\<close> is a \<^verbatim>\<open>uint32_t\<close>.
  So is \<^verbatim>\<open>indirect_frame\<close>, and the lock offset \<^verbatim>\<open>(1 + indirect_frame) << blockPagesShift\<close>
  is formed in 32 bits and wraps there. The product \<^verbatim>\<open>block * sectorsPerBlock\<close> of the
  \<^verbatim>\<open>uint32_t block\<close> is formed in the wider of 32 bits and the declared width of
  \<^verbatim>\<open>sectorsPerBlock\<close>; that declaration is in ext2fs.hpp, so the width \<open>w\<close> of the
  product is a parameter: 32 for a field of at most 32 bits, as the \<^verbatim>\<open>uint32_t sector\<close> of
  \<^verbatim>\<open>initiateInode\<close> suggests, 64 otherwise. \<open>out\<close> is the address of the mapping
  \<^verbatim>\<open>out_map\<close>.\<close>

definition manageIndirect_event ::
  "nat \<Rightarrow> FileSystem \<Rightarrow> FileData \<Rightarrow> memory \<Rightarrow> int \<Rightarrow> handle \<Rightarrow> nat \<Rightarrow> nat \<times> nat
     \<Rightarrow> event list \<times> (error + unit)" where
  "manageIndirect_event w fs fd mem1 order memory out ev =
     (let offset = fst ev; length = snd ev;
          element = drop_bit (blockPagesShift fs) offset mod 2 ^ 32;
          finish = (\<lambda>locks block.
            if \<not> (offset AND (push_bit (blockPagesShift fs) 1 - 1) = 0
                   \<and> length = push_bit (blockPagesShift fs) 1)
            then (locks, Inl AlignmentViolation)
            else (locks @
                  [MapMemory memory offset length,
                   ReadSectors ((unat block * sectorsPerBlock fs) mod 2 ^ w) out
                     (sectorsPerBlock fs),
                   CompleteLoad memory offset length], Inr ()))
      in
      if order = 1 then
        (if element = 0 then finish [] (singleIndirect fd)
         else if element = 1 then finish [] (doubleIndirect fd)
         else if element = 2 then finish [] (tripleIndirect fd)
         else ([], Inl UnexpectedOffset))
      else if order \<noteq> 2 then ([], Inl UnexpectedOffset)
      else
        let indirect_frame = drop_bit (blockShift fs - 2) element;
            indirect_index = element AND (push_bit (blockShift fs - 2) 1 - 1);
            lock_offset = push_bit (blockPagesShift fs) (1 + indirect_frame) mod 2 ^ 32;
            lock_length = push_bit (blockPagesShift fs) 1
        in finish [LockMemory indirectOrder1 lock_offset lock_length,
                   MapMemory indirectOrder1 lock_offset lock_length]
                  (mapped_u32 mem1 lock_offset indirect_index))"

text \<open>The sizes with which \<^verbatim>\<open>initiateInode\<close> creates the order-2 and the order-1
  memory object. A manage event of an object is a range inside it.\<close>

definition order2_size :: "FileSystem \<Rightarrow> nat" where
  "order2_size fs = push_bit (blockPagesShift fs) (blockSize fs div 4)"

definition order1_size :: "FileSystem \<Rightarrow> nat" where
  "order1_size fs = push_bit (blockPagesShift fs) 3"

text \<open>The lock requests among the events of a routine.\<close>

definition is_lock :: "event \<Rightarrow> bool" where
  "is_lock e = (case e of LockMemory h off len \<Rightarrow> True | _ \<Rightarrow> False)"

section \<open>FileSystem::initiateInode\<close>

text \<open>Modelled from the spec: the constants \<^verbatim>\<open>EXT2_S_IF*\<close> and \<^verbatim>\<open>EXT2_FT_*\<close> and the
  structures \<^verbatim>\<open>DiskInode\<close> and \<^verbatim>\<open>DiskDirEntry\<close> are declared in ext2fs.hpp, which is not
  among the sources. The specification names them (sections 3, 4.3 and 4.6) and fixes
  the on-disk layout as that of ext2; the values are the ones of that format.\<close>

definition EXT2_S_IFMT :: u16 where "EXT2_S_IFMT = 0xF000"
definition EXT2_S_IFLNK :: u16 where "EXT2_S_IFLNK = 0xA000"
definition EXT2_S_IFREG :: u16 where "EXT2_S_IFREG = 0x8000"
definition EXT2_S_IFDIR :: u16 where "EXT2_S_IFDIR = 0x4000"

definition EXT2_FT_REG_FILE :: byte where "EXT2_FT_REG_FILE = 1"
definition EXT2_FT_DIR :: byte where "EXT2_FT_DIR = 2"
definition EXT2_FT_SYMLINK :: byte where "EXT2_FT_SYMLINK = 7"

record DiskInode =
  di_mode :: u16
  di_uid :: u16
  di_size :: u32
  di_atime :: u32
  di_ctime :: u32
  di_mtime :: u32
  di_gid :: u16
  di_linksCount :: u16
  di_data :: FileData

text \<open>The inode record. A handle field is \<open>None\<close> until a handle has been stored in
  it.\<close>

record Inode =
  number :: u32
  isReady :: bool
  fileType :: FileType
  fileSize :: nat
  fileData :: FileData
  mode :: u16
  numLinks :: nat
  uid :: nat
  gid :: nat
  accessTime :: "nat \<times> nat"
  dataModifyTime :: "nat \<times> nat"
  anyChangeTime :: "nat \<times> nat"
  ino_backingMemory :: "nat option"
  ino_frontalMemory :: "nat option"
  ino_indirectOrder1 :: "nat option"
  ino_indirectOrder2 :: "nat option"

text \<open>\<^verbatim>\<open>Inode::Inode\<close>.\<close>

definition new_Inode :: "u32 \<Rightarrow> Inode" where
  "new_Inode n =
     \<lparr> number = n, isReady = False, fileType = kTypeNone, fileSize = 0,
       fileData = \<lparr> direct = replicate 12 0, singleIndirect = 0, doubleIndirect = 0,
                    tripleIndirect = 0 \<rparr>,
       mode = 0, numLinks = 0, uid = 0, gid = 0,
       accessTime = (0, 0), dataModifyTime = (0, 0), anyChangeTime = (0, 0),
       ino_backingMemory = None, ino_frontalMemory = None,
       ino_indirectOrder1 = None, ino_indirectOrder2 = None \<rparr>"

text \<open>What \<^verbatim>\<open>initiateInode\<close> does, in order: the sector read, the creation of a managed
  memory pair of a given size, the trigger of \<^verbatim>\<open>readyJump\<close>, and the start of a page-in
  handler.\<close>

datatype action =
    ReadInodeSector nat nat
  | CreateManagedMemory nat
  | TriggerReadyJump
  | StartManageIndirect nat nat
  | StartManageFileData

text \<open>\<^verbatim>\<open>initiateInode\<close>: every action with the inode record as it stands right after the
  action. \<open>bgdt\<close> gives the \<^verbatim>\<open>inodeTable\<close> field of each group descriptor, \<open>disk s o\<close>
  the \<^verbatim>\<open>DiskInode\<close> found at byte \<open>o\<close> of sector \<open>s\<close>, and \<open>handles k\<close> the pair
  (backing, frontal) that the \<open>k\<close>-th call of \<^verbatim>\<open>helCreateManagedMemory\<close> returns. The
  variables \<^verbatim>\<open>block_group\<close>, \<^verbatim>\<open>index\<close>, \<^verbatim>\<open>offset\<close> and \<^verbatim>\<open>sector\<close> are \<^verbatim>\<open>uint32_t\<close>.
  A division by zero traps, and an inode of an unexpected type aborts after the sector
  read.\<close>

definition initiateInode ::
  "FileSystem \<Rightarrow> (nat \<Rightarrow> u32) \<Rightarrow> (nat \<Rightarrow> nat \<Rightarrow> DiskInode) \<Rightarrow> (nat \<Rightarrow> nat \<times> nat) \<Rightarrow> Inode
     \<Rightarrow> (action \<times> Inode) list \<times> (error + unit)" where
  "initiateInode fs bgdt disk handles inode =
     (if inodesPerGroup fs = 0 then ([], Inl GeometryInvalid)
      else
        let block_group = (unat (number inode - 1) div inodesPerGroup fs) mod 2 ^ 32;
            index = (unat (number inode - 1) mod inodesPerGroup fs) mod 2 ^ 32;
            offset = (index * inodeSize fs) mod 2 ^ 32;
            inode_table_block = bgdt block_group;
            sector = (unat inode_table_block * sectorsPerBlock fs + offset div 512) mod 2 ^ 32;
            disk_inode = disk sector (offset mod 512);
            fmt = di_mode disk_inode AND EXT2_S_IFMT
        in
        if fmt \<noteq> EXT2_S_IFREG \<and> fmt \<noteq> EXT2_S_IFLNK \<and> fmt \<noteq> EXT2_S_IFDIR
        then ([(ReadInodeSector sector 1, inode)], Inl UnsupportedInodeType)
        else
          let ino1 = inode
                \<lparr> fileType := (if fmt = EXT2_S_IFREG then kTypeRegular
                                else if fmt = EXT2_S_IFLNK then kTypeSymlink
                                else kTypeDirectory),
                  fileSize := unat (di_size disk_inode),
                  fileData := di_data disk_inode,
                  mode := di_mode disk_inode AND 0x0FFF,
                  numLinks := unat (di_linksCount disk_inode),
                  uid := unat (di_uid disk_inode),
                  gid := unat (di_gid disk_inode),
                  accessTime := (unat (di_atime disk_inode), 0),
                  dataModifyTime := (unat (di_mtime disk_inode), 0),
                  anyChangeTime := (unat (di_ctime disk_inode), 0) \<rparr>;
              ino2 = ino1 \<lparr> ino_backingMemory := Some (fst (handles 0)),
                            ino_frontalMemory := Some (snd (handles 0)) \<rparr>;
              ino3 = ino2 \<lparr> isReady := True \<rparr>;
              ino4 = ino3 \<lparr> ino_indirectOrder1 := Some (snd (handles 1)),
                            ino_indirectOrder2 := Some (snd (handles 2)) \<rparr>
          in ([(ReadInodeSector sector 1, inode),
               (CreateManagedMemory (cache_size (fileSize ino1)), ino2),
               (TriggerReadyJump, ino3),
               (CreateManagedMemory (order1_size fs), ino3),
               (CreateManagedMemory (order2_size fs), ino3),
               (StartManageIndirect 1 (fst (handles 1)), ino4),
               (StartManageIndirect 2 (fst (handles 2)), ino4),
               (StartManageFileData, ino4)], Inr ()))"


section \<open>The directory reader\<close>

text \<open>Modelled from the spec: the fields of the \<^verbatim>\<open>DiskDirEntry\<close> at byte \<open>off\<close> of the
  mapped directory (section 3: inode u32, record length u16, name length u8, file type
  u8, then the name), little endian. The header has 8 bytes, the value of
  \<^verbatim>\<open>sizeof(DiskDirEntry)\<close>.\<close>

definition entry_inode :: "memory \<Rightarrow> nat \<Rightarrow> u32" where
  "entry_inode window off =
     word_rcat [window (off + 3), window (off + 2), window (off + 1), window off]"

definition entry_recordLength :: "memory \<Rightarrow> nat \<Rightarrow> nat" where
  "entry_recordLength window off =
     unat (word_rcat [window (off + 5), window (off + 4)] :: u16)"

definition entry_nameLength :: "memory \<Rightarrow> nat \<Rightarrow> nat" where
  "entry_nameLength window off = unat (window (off + 6))"

definition entry_fileType :: "memory \<Rightarrow> nat \<Rightarrow> byte" where
  "entry_fileType window off = window (off + 7)"

definition entry_name :: "memory \<Rightarrow> nat \<Rightarrow> nat \<Rightarrow> byte" where
  "entry_name window off i = window (off + 8 + i)"

definition sizeof_DiskDirEntry :: nat where
  "sizeof_DiskDirEntry = 8"

text \<open>A \<^verbatim>\<open>std::string\<close> is a list of bytes; \<^verbatim>\<open>c_str()\<close> is that list followed by a
  NUL byte.\<close>

definition c_str :: "byte list \<Rightarrow> nat \<Rightarrow> byte" where
  "c_str name i = (if i < length name then name ! i else 0)"

text \<open>\<^verbatim>\<open>strncmp(s1, s2, n) == 0\<close>: the C library compares at most \<open>n\<close> characters and
  stops behind a NUL that both strings have at the same place.\<close>

fun strncmp_eq :: "(nat \<Rightarrow> byte) \<Rightarrow> (nat \<Rightarrow> byte) \<Rightarrow> nat \<Rightarrow> bool" where
  "strncmp_eq s1 s2 0 = True"
| "strncmp_eq s1 s2 (Suc n) =
     (if s1 0 \<noteq> s2 0 then False
      else if s1 0 = 0 then True
      else strncmp_eq (\<lambda>i. s1 (Suc i)) (\<lambda>i. s2 (Suc i)) n)"

record DirEntry =
  de_inode :: u32
  de_fileType :: FileType

text \<open>The \<^verbatim>\<open>switch\<close> of \<^verbatim>\<open>findEntry\<close> on the file type byte.\<close>

definition entry_type :: "byte \<Rightarrow> FileType" where
  "entry_type t =
     (if t = EXT2_FT_REG_FILE then kTypeRegular
      else if t = EXT2_FT_DIR then kTypeDirectory
      else if t = EXT2_FT_SYMLINK then kTypeSymlink
      else kTypeNone)"

text \<open>The loop of \<^verbatim>\<open>Inode::findEntry\<close> from a given offset. It returns the offset at which
  it stopped and the entry it found, if any. Nothing in the loop bounds it: on a record
  of length zero it does not return, and the result is \<open>None\<close>.\<close>

partial_function (option) findEntry_loop ::
  "memory \<Rightarrow> nat \<Rightarrow> byte list \<Rightarrow> nat \<Rightarrow> (nat \<times> DirEntry option) option" where
  "findEntry_loop window fsize name offset =
     (if offset < fsize then
        (if length name = entry_nameLength window offset
            \<and> strncmp_eq (entry_name window offset) (c_str name) (entry_nameLength window offset)
         then Some (offset, Some \<lparr> de_inode = entry_inode window offset,
                                   de_fileType = entry_type (entry_fileType window offset) \<rparr>)
         else findEntry_loop window fsize name (offset + entry_recordLength window offset))
      else Some (offset, None))"

text \<open>The test of the loop of \<^verbatim>\<open>findEntry\<close> on the record at \<open>off\<close>.\<close>

definition code_matches :: "memory \<Rightarrow> byte list \<Rightarrow> nat \<Rightarrow> bool" where
  "code_matches window name off =
     (length name = entry_nameLength window off
      \<and> strncmp_eq (entry_name window off) (c_str name) (entry_nameLength window off))"

text \<open>\<^verbatim>\<open>Inode::findEntry\<close> on the directory whose frontal memory holds \<open>window\<close>. The
  first assertion rejects the empty name, \<^verbatim>\<open>"."\<close> and \<^verbatim>\<open>".."\<close> (46 is the dot).\<close>

definition findEntry ::
  "memory \<Rightarrow> nat \<Rightarrow> byte list \<Rightarrow> (event list \<times> (error + DirEntry option)) option" where
  "findEntry window fsize name =
     (if name = [] \<or> name = [46] \<or> name = [46, 46] then Some ([], Inl InvalidName)
      else
        let map_size = cache_size fsize;
            evs = [LockMemory frontalMemory 0 map_size, MapMemory frontalMemory 0 map_size]
        in case findEntry_loop window fsize name 0 of
             None \<Rightarrow> None
           | Some (offset, Some entry) \<Rightarrow> Some (evs, Inr (Some entry))
           | Some (offset, None) \<Rightarrow>
               (if offset = fsize then Some (evs, Inr None)
                else Some (evs, Inl DirectoryCorrupt)))"

text \<open>\<^verbatim>\<open>OpenFile::readEntries\<close> with the cursor at \<open>offset\<close>: the events, and either the
  assertion that failed or the returned value with the new offset of the cursor.\<close>

definition readEntries ::
  "memory \<Rightarrow> nat \<Rightarrow> nat \<Rightarrow> event list \<times> (error + byte list option \<times> nat)" where
  "readEntries window fsize offset =
     (if \<not> offset \<le> fsize then ([], Inl DirectoryCorrupt)
      else if offset = fsize then ([], Inr (None, offset))
      else
        let map_size = cache_size fsize;
            evs = [LockMemory frontalMemory 0 map_size, MapMemory frontalMemory 0 map_size]
        in
        if \<not> offset + sizeof_DiskDirEntry \<le> fsize then (evs, Inl DirectoryCorrupt)
        else if \<not> offset + entry_recordLength window offset \<le> fsize
        then (evs, Inl DirectoryCorrupt)
        else (evs, Inr (Some (map (entry_name window offset)
                                  [0..<entry_nameLength window offset]),
                        offset + entry_recordLength window offset)))"

text \<open>Successive calls of \<^verbatim>\<open>readEntries\<close> on one cursor: what each of the first \<open>k\<close>
  calls returns and the offset of the cursor after it. A failed assertion ends the
  sequence.\<close>

fun readEntries_calls ::
  "memory \<Rightarrow> nat \<Rightarrow> nat \<Rightarrow> nat \<Rightarrow> (byte list option \<times> nat) list" where
  "readEntries_calls window fsize offset 0 = []"
| "readEntries_calls window fsize offset (Suc k) =
     (case snd (readEntries window fsize offset) of
        Inl e \<Rightarrow> []
      | Inr (r, offset') \<Rightarrow> (r, offset') # readEntries_calls window fsize offset' k)"

subsection \<open>Well-formed directories, in the words of the specification\<close>

text \<open>Section 3: each entry lies wholly within the file and the record lengths sum to the
  file size. The walk from \<open>off\<close> yields the offsets of the entries, or \<open>None\<close> where
  an entry does not hold its header and name or overruns the file.\<close>

function dir_entries :: "memory \<Rightarrow> nat \<Rightarrow> nat \<Rightarrow> nat list option" where
  "dir_entries window fsize off =
     (if off = fsize then Some []
      else if off < fsize
              \<and> 8 + entry_nameLength window off \<le> entry_recordLength window off
              \<and> off + entry_recordLength window off \<le> fsize
      then (case dir_entries window fsize (off + entry_recordLength window off) of
              None \<Rightarrow> None
            | Some offs \<Rightarrow> Some (off # offs))
      else None)"
  by pat_completeness auto
termination
  by (relation "measure (\<lambda>(window, fsize, off). fsize - off)") auto

declare dir_entries.simps [simp del]

definition well_formed_dir :: "memory \<Rightarrow> nat \<Rightarrow> bool" where
  "well_formed_dir window fsize = (dir_entries window fsize 0 \<noteq> None)"

text \<open>The offsets of the records of a well-formed directory, in walking order.\<close>

definition dir_offsets :: "memory \<Rightarrow> nat \<Rightarrow> nat list" where
  "dir_offsets window fsize =
     (case dir_entries window fsize 0 of Some offs \<Rightarrow> offs | None \<Rightarrow> [])"

text \<open>The name stored in the entry at \<open>off\<close>, and whether it is \<open>name\<close>: same length
  and same bytes.\<close>

definition stored_name :: "memory \<Rightarrow> nat \<Rightarrow> byte list" where
  "stored_name window off = map (entry_name window off) [0..<entry_nameLength window off]"

definition name_matches :: "memory \<Rightarrow> byte list \<Rightarrow> nat \<Rightarrow> bool" where
  "name_matches window name off = (stored_name window off = name)"

definition result_entry :: "memory \<Rightarrow> nat \<Rightarrow> DirEntry" where
  "result_entry window off =
     \<lparr> de_inode = entry_inode window off,
       de_fileType =
         (if entry_fileType window off = EXT2_FT_REG_FILE then kTypeRegular
          else if entry_fileType window off = EXT2_FT_DIR then kTypeDirectory
          else if entry_fileType window off = EXT2_FT_SYMLINK then kTypeSymlink
          else kTypeNone) \<rparr>"

text \<open>A memory whose first bytes are the given list and whose other bytes are zero.\<close>

definition bytes_memory :: "byte list \<Rightarrow> memory" where
  "bytes_memory bs = (\<lambda>a. if a < length bs then bs ! a else 0)"


section \<open>Concrete file systems and files\<close>

text \<open>A superblock with 1024-byte blocks and the geometry \<^verbatim>\<open>init\<close> derives from it.\<close>

definition sb_1k :: DiskSuperblock where
  "sb_1k = \<lparr> magic = 0xEF53, inodeSize_sb = 128, logBlockSize = 0, blocksCount = 8192,
              blocksPerGroup = 8192, inodesPerGroup_sb = 2048 \<rparr>"

definition fs_1k :: FileSystem where
  "fs_1k = \<lparr> inodeSize = 128, blockShift = 10, blockSize = 1024, blockPagesShift = 12,
              sectorsPerBlock = 2, numBlockGroups = 1, inodesPerGroup = 2048 \<rparr>"

text \<open>The file of scenario S2 of the specification: 5000 bytes, direct blocks 100 to 104,
  the other entries unused. Its inode is number 12; the inode table of its group starts
  at block 5; the kernel hands out the handles 20, 21, and so on.\<close>

definition fd_S2 :: FileData where
  "fd_S2 = \<lparr> direct = [100, 101, 102, 103, 104, 0, 0, 0, 0, 0, 0, 0],
              singleIndirect = 0, doubleIndirect = 0, tripleIndirect = 0 \<rparr>"

definition bgdt_S2 :: "nat \<Rightarrow> u32" where
  "bgdt_S2 = (\<lambda>group. 5)"

definition disk_S2 :: "nat \<Rightarrow> nat \<Rightarrow> DiskInode" where
  "disk_S2 = (\<lambda>sector byte.
     \<lparr> di_mode = 0x81A4, di_uid = 0, di_size = 5000, di_atime = 0, di_ctime = 0, di_mtime = 0,
       di_gid = 0, di_linksCount = 1, di_data = fd_S2 \<rparr>)"

definition handles_S2 :: "nat \<Rightarrow> nat \<times> nat" where
  "handles_S2 = (\<lambda>k. (20 + 2 * k, 21 + 2 * k))"

text \<open>A file with twelve direct blocks 100 to 111 and a single-indirect table whose first
  entries are 200, 201, 202 and 300.\<close>

definition fd_S5 :: FileData where
  "fd_S5 = \<lparr> direct = [100, 101, 102, 103, 104, 105, 106, 107, 108, 109, 110, 111],
              singleIndirect = 50, doubleIndirect = 0, tripleIndirect = 0 \<rparr>"

definition mem1_S5 :: memory where
  "mem1_S5 = bytes_memory [200, 0, 0, 0, 201, 0, 0, 0, 202, 0, 0, 0, 44, 1, 0, 0]"

text \<open>An order-2 cache whose slot 1 (at offset 4096) has 777 as entry 44.\<close>

definition mem2_S7 :: memory where
  "mem2_S7 = (\<lambda>a. if a = 4272 then 9 else if a = 4273 then 3 else 0)"

text \<open>Two order-1 caches whose slot 1 (the double-indirect block, at offset 4096) has as
  entry 3 the block number 300 and the block number \<open>2^31 + 1\<close>.\<close>

definition mem1_S6 :: memory where
  "mem1_S6 = (\<lambda>a. if a = 4108 then 44 else if a = 4109 then 1 else 0)"

definition mem1_high :: memory where
  "mem1_high = (\<lambda>a. if a = 4108 then 1 else if a = 4111 then 128 else 0)"

text \<open>A memory of zero bytes, and a device whose byte at address \<open>a\<close> is the number of the
  1024-byte block that holds it.\<close>

definition zero_memory :: memory where
  "zero_memory = (\<lambda>a. 0)"

definition dev_ramp :: memory where
  "dev_ramp = (\<lambda>a. word_of_nat (a div 1024))"

text \<open>The directory of scenarios S1 and S4 of the specification, 1024 bytes: the records
  \<^verbatim>\<open>"."\<close> and \<^verbatim>\<open>".."\<close> (inode 2), \<^verbatim>\<open>"hello"\<close> (inode 12, regular) and \<^verbatim>\<open>"foo"\<close>
  (inode 13), with record lengths 12, 12, 16 and 984.\<close>

definition dir_S4 :: memory where
  "dir_S4 = bytes_memory
     [2, 0, 0, 0, 12, 0, 1, 2, 46, 0, 0, 0,
      2, 0, 0, 0, 12, 0, 2, 2, 46, 46, 0, 0,
      12, 0, 0, 0, 16, 0, 5, 1, 104, 101, 108, 108, 111, 0, 0, 0,
      13, 0, 0, 0, 216, 3, 3, 1, 102, 111, 111, 0]"

text \<open>A directory of 12 bytes with one record: inode 5, regular, named by the three bytes
  \<^verbatim>\<open>a\<close>, NUL, \<^verbatim>\<open>c\<close>.\<close>

definition dir_nul :: memory where
  "dir_nul = bytes_memory [5, 0, 0, 0, 12, 0, 3, 1, 97, 0, 99, 0]"

section \<open>Properties\<close>

subsection \<open>Geometry\<close>

lemma init_blockShift: "init sb = Inr fs \<Longrightarrow> blockShift fs = 10 + unat (logBlockSize sb)"
  by (auto simp: init_def Let_def split: if_splits)

lemma init_blockSize: "init sb = Inr fs \<Longrightarrow> blockSize fs = 2 ^ blockShift fs"
  by (auto simp: init_def Let_def push_bit_eq_mult power_add split: if_splits)

lemma init_per_indirect:
  assumes "init sb = Inr fs"
  shows "per_indirect fs = 2 ^ (blockShift fs - 2)"
proof -
  have "2 \<le> blockShift fs"
    using init_blockShift [OF assms] by simp
  then obtain m where m: "blockShift fs = m + 2"
    by (metis add.commute le_Suc_ex)
  show ?thesis
    by (simp add: per_indirect_def init_blockSize [OF assms] m)
qed

lemma init_per_indirect_pos: "init sb = Inr fs \<Longrightarrow> 0 < per_indirect fs"
  by (simp add: init_per_indirect)

lemma init_sectorsPerBlock: "init sb = Inr fs \<Longrightarrow> sectorsPerBlock fs * 512 = blockSize fs"
  by (auto simp: init_def Let_def push_bit_eq_mult split: if_splits)

lemma init_blockPagesShift: "init sb = Inr fs \<Longrightarrow> blockPagesShift fs = max (blockShift fs) 12"
  by (auto simp: init_def Let_def pageShift_def split: if_splits)

lemma mask_eq_mod: "(e::nat) AND (push_bit n 1 - 1) = e mod 2 ^ n"
proof -
  have "push_bit n (1::nat) - 1 = mask n"
    by (simp add: mask_eq_exp_minus_1)
  then show ?thesis
    by (simp add: take_bit_eq_mod [symmetric] take_bit_eq_mask)
qed

lemma mask_eq_mod': "(e::nat) AND (2 ^ n - Suc 0) = e mod 2 ^ n"
  using mask_eq_mod [of e n] by simp

subsection \<open>fuse\<close>

lemma fuse_loop_spec:
  "contig list index n \<Longrightarrow> n \<le> remaining \<Longrightarrow> index + n \<le> limit \<Longrightarrow>
   (let r = fuse_loop index remaining list limit n in
      n \<le> r \<and> r \<le> remaining \<and> index + r \<le> limit \<and> contig list index r \<and>
      (r < remaining \<and> index + r < limit \<longrightarrow> unat (list (index + r)) \<noteq> unat (list index) + r))"
proof (induction index remaining list limit n rule: fuse_loop.induct)
  case (1 index remaining list limit n)
  show ?case
  proof (cases "n < remaining \<and> index + n < limit
      \<and> unat (list (index + n)) = unat (list index) + n")
    case True
    have c: "contig list index (n + 1)"
      using "1.prems"(1) True by (auto simp: contig_def less_Suc_eq)
    have "let r = fuse_loop index remaining list limit (n + 1) in
      n + 1 \<le> r \<and> r \<le> remaining \<and> index + r \<le> limit \<and> contig list index r \<and>
      (r < remaining \<and> index + r < limit \<longrightarrow> unat (list (index + r)) \<noteq> unat (list index) + r)"
      using "1.IH" [OF _ _ c] True by simp
    moreover have "fuse_loop index remaining list limit n = fuse_loop index remaining list limit (n + 1)"
      using True by (subst fuse_loop.simps) simp
    ultimately show ?thesis by (simp add: Let_def)
  next
    case False
    then have "fuse_loop index remaining list limit n = n"
      by (subst fuse_loop.simps) auto
    with False "1.prems" show ?thesis by (auto simp: Let_def)
  qed
qed

lemma fuse_spec:
  assumes "1 \<le> remaining" "index < limit"
  shows "fst (fuse index remaining list limit) = unat (list index)"
    and "1 \<le> snd (fuse index remaining list limit)"
    and "snd (fuse index remaining list limit) \<le> remaining"
    and "index + snd (fuse index remaining list limit) \<le> limit"
    and "contig list index (snd (fuse index remaining list limit))"
    and "snd (fuse index remaining list limit) < remaining \<Longrightarrow>
         index + snd (fuse index remaining list limit) < limit \<Longrightarrow>
         unat (list (index + snd (fuse index remaining list limit)))
           \<noteq> unat (list index) + snd (fuse index remaining list limit)"
proof -
  have c: "contig list index 1"
    by (simp add: contig_def)
  have le: "index + 1 \<le> limit"
    using assms by simp
  note s = fuse_loop_spec [OF c assms(1) le, unfolded Let_def]
  show "fst (fuse index remaining list limit) = unat (list index)"
    by (simp add: fuse_def)
  show "1 \<le> snd (fuse index remaining list limit)"
    using s by (simp add: fuse_def)
  show "snd (fuse index remaining list limit) \<le> remaining"
    using s by (simp add: fuse_def)
  show "index + snd (fuse index remaining list limit) \<le> limit"
    using s by (simp add: fuse_def)
  show "contig list index (snd (fuse index remaining list limit))"
    using s by (simp add: fuse_def)
  show "snd (fuse index remaining list limit) < remaining \<Longrightarrow>
         index + snd (fuse index remaining list limit) < limit \<Longrightarrow>
         unat (list (index + snd (fuse index remaining list limit)))
           \<noteq> unat (list index) + snd (fuse index remaining list limit)"
    using s by (simp add: fuse_def)
qed

lemma fuse_one: "fuse index 1 list limit = (unat (list index), 1)"
  by (simp add: fuse_def fuse_loop.simps)

subsection \<open>The loop body against the specification's mapping\<close>

lemma readData_issue_eq:
  assumes "init sb = Inr fs"
  shows "readData_issue fs fd mem1 mem2 L remaining =
    (block_locks fs L,
     fuse (table_index fs L) remaining (backing_table fs fd mem1 mem2 L) (table_limit fs L))"
proof -
  note per = init_per_indirect [OF assms]
  consider "L < 12" | "12 \<le> L" "L < s_range fs" | "s_range fs \<le> L"
    by linarith
  then show ?thesis
  proof cases
    case 1
    then have "\<not> s_range fs \<le> L"
      by (simp add: s_range_def i_range_def)
    with 1 show ?thesis
      by (simp add: readData_issue_def block_locks_def table_index_def backing_table_def
          table_limit_def i_range_def)
  next
    case 2
    then show ?thesis
      by (simp add: readData_issue_def block_locks_def table_index_def backing_table_def
          table_limit_def i_range_def Let_def slot_size_def push_bit_eq_mult)
  next
    case 3
    then have "\<not> L < 12" "\<not> L < s_range fs"
      by (simp_all add: s_range_def i_range_def)
    with 3 show ?thesis
      by (simp add: readData_issue_def block_locks_def table_index_def backing_table_def
          table_limit_def Let_def slot_size_def mask_eq_mod' drop_bit_eq_div per
          push_bit_eq_mult)
  qed
qed

lemma table_index_less:
  assumes "init sb = Inr fs" "L < d_range fs"
  shows "table_index fs L < table_limit fs L"
  using assms init_per_indirect_pos [OF assms(1)]
  by (auto simp: table_index_def table_limit_def s_range_def i_range_def)

subsection \<open>The iterations of the loop\<close>

lemma readData_loop_iteration:
  "it \<in> set (fst (readData_loop fs fd mem1 mem2 offset num_blocks progress)) \<Longrightarrow>
   progress \<le> it_progress it \<and> it_progress it < num_blocks
   \<and> offset + it_progress it < d_range fs
   \<and> (it_locks it, it_issue it) =
       readData_issue fs fd mem1 mem2 (offset + it_progress it) (num_blocks - it_progress it)"
proof (induction fs fd mem1 mem2 offset num_blocks progress rule: readData_loop.induct)
  case (1 fs fd mem1 mem2 offset num_blocks progress)
  show ?case
  proof (cases "progress < num_blocks \<and> offset + progress < d_range fs")
    case False
    with "1.prems" show ?thesis
      by (subst (asm) readData_loop.simps) (auto simp: Let_def split: if_splits)
  next
    case True
    obtain locks issue where li:
      "readData_issue fs fd mem1 mem2 (offset + progress) (num_blocks - progress) = (locks, issue)"
      by (cases "readData_issue fs fd mem1 mem2 (offset + progress) (num_blocks - progress)")
    let ?it = "\<lparr> it_progress = progress, it_locks = locks, it_issue = issue \<rparr>"
    show ?thesis
    proof (cases "fst issue = 0")
      case z: True
      have "readData_loop fs fd mem1 mem2 offset num_blocks progress = ([?it], Inl HoleEncountered)"
        using True li z by (subst readData_loop.simps) (simp add: Let_def)
      with "1.prems" have "it = ?it" by simp
      with True li show ?thesis by simp
    next
      case nz: False
      obtain rest r where rr:
        "readData_loop fs fd mem1 mem2 offset num_blocks (progress + snd issue) = (rest, r)"
        by (cases "readData_loop fs fd mem1 mem2 offset num_blocks (progress + snd issue)")
      have "readData_loop fs fd mem1 mem2 offset num_blocks progress = (?it # rest, r)"
        using True li nz rr by (subst readData_loop.simps) (simp add: Let_def)
      with "1.prems" consider "it = ?it" | "it \<in> set rest" by auto
      then show ?thesis
      proof cases
        case 1
        with True li show ?thesis by simp
      next
        case 2
        have "it \<in> set (fst (readData_loop fs fd mem1 mem2 offset num_blocks (progress + snd issue)))"
          using 2 rr by simp
        moreover have "progress < num_blocks" "\<not> \<not> offset + progress < d_range fs"
          using True by simp_all
        ultimately have "progress + snd issue \<le> it_progress it \<and> it_progress it < num_blocks
            \<and> offset + it_progress it < d_range fs
            \<and> (it_locks it, it_issue it) =
                readData_issue fs fd mem1 mem2 (offset + it_progress it)
                  (num_blocks - it_progress it)"
          using "1.IH" [OF _ refl _ refl li [symmetric] refl nz] by blast
        then show ?thesis by auto
      qed
    qed
  qed
qed



subsection \<open>Runs inside one table\<close>

lemma init_sb_1k: "init sb_1k = Inr fs_1k"
  by (simp add: init_def sb_1k_def fs_1k_def pageShift_def)

lemma div_mod_shift:
  fixes a p k :: nat
  assumes "a mod p + k < p"
  shows "(a + k) div p = a div p" and "(a + k) mod p = a mod p + k"
proof -
  have p: "p \<noteq> 0" using assms by auto
  have split: "a + k = (a mod p + k) + a div p * p" by simp
  have "(a + k) div p = ((a mod p + k) + a div p * p) div p"
    by (simp only: split [symmetric])
  also have "\<dots> = a div p + (a mod p + k) div p"
    by (rule div_mult_self1 [OF p])
  also have "\<dots> = a div p" using assms by simp
  finally show "(a + k) div p = a div p" .
  have "(a + k) mod p = ((a mod p + k) + a div p * p) mod p"
    by (simp only: split [symmetric])
  also have "\<dots> = (a mod p + k) mod p"
    by (rule mod_mult_self1)
  also have "\<dots> = a mod p + k" using assms by simp
  finally show "(a + k) mod p = a mod p + k" .
qed

lemma bucket_run:
  assumes i: "init sb = Inr fs" and L: "L < d_range fs"
    and k: "table_index fs L + k < table_limit fs L"
  shows "bucket fs (L + k) = bucket fs L"
    and "table_index fs (L + k) = table_index fs L + k"
    and "table_limit fs (L + k) = table_limit fs L"
    and "backing_table fs fd mem1 mem2 (L + k) = backing_table fs fd mem1 mem2 L"
    and "block_locks fs (L + k) = block_locks fs L"
    and "L + k < d_range fs"
proof -
  let ?p = "per_indirect fs"
  have pos: "0 < ?p" by (rule init_per_indirect_pos [OF i])
  consider "L < 12" | "12 \<le> L" "L < s_range fs" | "s_range fs \<le> L"
    by linarith
  then have "bucket fs (L + k) = bucket fs L \<and> table_index fs (L + k) = table_index fs L + k
    \<and> table_limit fs (L + k) = table_limit fs L
    \<and> backing_table fs fd mem1 mem2 (L + k) = backing_table fs fd mem1 mem2 L
    \<and> block_locks fs (L + k) = block_locks fs L \<and> L + k < d_range fs"
  proof cases
    case 1
    with k have "L + k < 12" by (simp add: table_index_def table_limit_def)
    with 1 show ?thesis
      by (simp add: bucket_def table_index_def table_limit_def backing_table_def block_locks_def
          d_range_def s_range_def i_range_def)
  next
    case 2
    with k have "L - 12 + k < ?p" by (simp add: table_index_def table_limit_def)
    with 2 have "12 \<le> L + k" "L + k < s_range fs"
      by (simp_all add: s_range_def i_range_def)
    with 2 show ?thesis
      by (simp add: bucket_def table_index_def table_limit_def backing_table_def block_locks_def
          d_range_def)
  next
    case 3
    define e where "e = L - s_range fs"
    have e: "L = s_range fs + e" using 3 by (simp add: e_def)
    have n12: "\<not> L < 12" "\<not> L + k < 12" "\<not> L < s_range fs" "\<not> L + k < s_range fs"
      using 3 by (simp_all add: s_range_def i_range_def)
    have ek: "e mod ?p + k < ?p"
      using k n12 by (simp add: table_index_def table_limit_def e_def)
    have ep: "e < ?p * ?p" using L e by (simp add: d_range_def)
    have dv: "(e + k) div ?p = e div ?p" and md: "(e + k) mod ?p = e mod ?p + k"
      using div_mod_shift [OF ek] by simp_all
    have "e div ?p < ?p" using ep pos by (simp add: less_mult_imp_div_less)
    then have "e div ?p * ?p + ?p \<le> ?p * ?p"
      by (metis Suc_leI mult_Suc mult_le_mono1 add.commute)
    moreover have "e + k < e div ?p * ?p + ?p"
    proof -
      have "e + k = e div ?p * ?p + (e mod ?p + k)" by simp
      with ek show ?thesis by linarith
    qed
    ultimately have "e + k < ?p * ?p" by linarith
    then have lt: "L + k < d_range fs" using e by (simp add: d_range_def)
    have sub: "L + k - s_range fs = e + k" using e by simp
    show ?thesis
      using n12 lt L dv md
      by (simp add: bucket_def table_index_def table_limit_def backing_table_def block_locks_def
          sub e_def [symmetric])
  qed
  then show "bucket fs (L + k) = bucket fs L"
    and "table_index fs (L + k) = table_index fs L + k"
    and "table_limit fs (L + k) = table_limit fs L"
    and "backing_table fs fd mem1 mem2 (L + k) = backing_table fs fd mem1 mem2 L"
    and "block_locks fs (L + k) = block_locks fs L"
    and "L + k < d_range fs"
    by simp_all
qed

lemma physical_block_table:
  "physical_block fs fd mem1 mem2 L = backing_table fs fd mem1 mem2 L (table_index fs L)"
  by (simp add: physical_block_def backing_table_def table_index_def)

lemma iteration_fuse:
  assumes i: "init sb = Inr fs"
    and it: "it \<in> set (fst (readData_loop fs fd mem1 mem2 offset num_blocks progress))"
  shows "it_locks it = block_locks fs (offset + it_progress it)"
    and "it_issue it = fuse (table_index fs (offset + it_progress it))
           (num_blocks - it_progress it)
           (backing_table fs fd mem1 mem2 (offset + it_progress it))
           (table_limit fs (offset + it_progress it))"
    and "it_progress it < num_blocks"
    and "offset + it_progress it < d_range fs"
    and "progress \<le> it_progress it"
  using readData_loop_iteration [OF it] readData_issue_eq [OF i] by simp_all


subsection \<open>Read fusion is maximal\<close>

lemma fusible_iff:
  assumes i: "init sb = Inr fs" and L: "L < d_range fs"
  shows "fusible fs fd mem1 mem2 L n \<longleftrightarrow>
    1 \<le> n \<and> contig (backing_table fs fd mem1 mem2 L) (table_index fs L) n
    \<and> table_index fs L + n \<le> table_limit fs L"
proof -
  have "\<forall>k<n. bucket fs (L + k) = bucket fs L"
    if "table_index fs L + n \<le> table_limit fs L"
    using that bucket_run(1) [OF i L] by simp
  then show ?thesis
    by (auto simp: fusible_def contig_def)
qed

text \<open>
  Claim C2, amended. For every fused read that \<^verbatim>\<open>readData\<close> issues at position
  (start_logical, remaining), the run length \<open>n\<close> satisfies \<open>1 \<le> n \<le> remaining\<close>, the
  run satisfies the fusion constraints (same bucket, contiguous table entries, inside the
  table), and no longer run of at most \<open>remaining\<close> blocks satisfies them.
\<close>

theorem fuse_maximal_within_request:
  assumes i: "init sb = Inr fs" and "unat (logBlockSize sb) \<le> 6"
    and it: "it \<in> set (fst (readData_loop fs fd mem1 mem2 offset num_blocks 0))"
  shows "1 \<le> snd (it_issue it) \<and> snd (it_issue it) \<le> num_blocks - it_progress it
    \<and> fusible fs fd mem1 mem2 (offset + it_progress it) (snd (it_issue it))
    \<and> (\<forall>m. snd (it_issue it) < m \<and> m \<le> num_blocks - it_progress it
          \<longrightarrow> \<not> fusible fs fd mem1 mem2 (offset + it_progress it) m)"
proof -
  let ?L = "offset + it_progress it"
  let ?rem = "num_blocks - it_progress it"
  let ?tab = "backing_table fs fd mem1 mem2 ?L"
  let ?idx = "table_index fs ?L"
  let ?lim = "table_limit fs ?L"
  let ?n = "snd (it_issue it)"
  note f = iteration_fuse [OF i it]
  have L: "?L < d_range fs" by (rule f(4))
  have rem: "1 \<le> ?rem" using f(3) by simp
  have idx: "?idx < ?lim" by (rule table_index_less [OF i L])
  have n: "?n = snd (fuse ?idx ?rem ?tab ?lim)" by (simp add: f(2))
  note s = fuse_spec [OF rem idx, of ?tab, folded n]
  have ok: "fusible fs fd mem1 mem2 ?L ?n"
    using s(2,4,5) by (simp add: fusible_iff [OF i L])
  have "\<not> fusible fs fd mem1 mem2 ?L m" if m: "?n < m" "m \<le> ?rem" for m
  proof
    assume "fusible fs fd mem1 mem2 ?L m"
    then have c: "contig ?tab ?idx m" and b: "?idx + m \<le> ?lim"
      by (simp_all add: fusible_iff [OF i L])
    from c m(1) have "unat (?tab (?idx + ?n)) = unat (?tab ?idx) + ?n"
      by (simp add: contig_def)
    moreover have "?n < ?rem" "?idx + ?n < ?lim" using m b by simp_all
    ultimately show False using s(6) by simp
  qed
  with s(2,3) ok show ?thesis by blast
qed

lemmas readData_eval =
  readData_loop.simps readData_issue_def fuse_def fuse_loop.simps
  d_range_def s_range_def i_range_def per_indirect_def Let_def

lemma loop_S2_4: "fst (readData_loop fs_1k fd_S2 zero_memory zero_memory 0 4 0)
    = [\<lparr> it_progress = 0, it_locks = [], it_issue = (100, 4) \<rparr>]"
  by (simp add: readData_eval fs_1k_def fd_S2_def)

lemma loop_S2_8: "fst (readData_loop fs_1k fd_S2 zero_memory zero_memory 0 8 0)
    = [\<lparr> it_progress = 0, it_locks = [], it_issue = (100, 5) \<rparr>,
       \<lparr> it_progress = 5, it_locks = [], it_issue = (0, 1) \<rparr>]"
  by (simp add: readData_eval fs_1k_def fd_S2_def)

lemma all_less_upt: "(\<forall>k<n. P k) \<longleftrightarrow> (\<forall>k\<in>set [0..<n]. P k)"
  by auto

lemmas fusible_eval =
  fusible_def all_less_upt bucket_def backing_table_def table_index_def table_limit_def
  s_range_def i_range_def per_indirect_def d_range_def upt_rec [of _ "numeral _"]

text \<open>
  Claim C2 as stated, without the bound by \<open>remaining\<close>, fails: in scenario S2 a request
  of four blocks from block 0 is answered by a run of four blocks, although the run of
  five blocks satisfies the three fusion constraints.
\<close>

theorem fuse_maximal_counterexample:
  "map it_issue (fst (readData_loop fs_1k fd_S2 zero_memory zero_memory 0 4 0)) = [(100, 4)]
   \<and> fusible fs_1k fd_S2 zero_memory zero_memory 0 5"
proof -
  have "fusible fs_1k fd_S2 zero_memory zero_memory 0 5"
    by (simp add: fusible_eval fs_1k_def fd_S2_def)
  then show ?thesis by (simp add: loop_S2_4)
qed

text \<open>
  Claim C2, witness: a request of eight blocks from block 0 of the file of scenario S2.
  The first run has five blocks, and no run of six to eight blocks is fusible.
\<close>

theorem fuse_maximal_within_request_witness:
  "init sb_1k = Inr fs_1k \<and> unat (logBlockSize sb_1k) \<le> 6
   \<and> \<lparr> it_progress = 0, it_locks = [], it_issue = (100, 5) \<rparr>
        \<in> set (fst (readData_loop fs_1k fd_S2 zero_memory zero_memory 0 8 0))
   \<and> fusible fs_1k fd_S2 zero_memory zero_memory 0 5
   \<and> \<not> fusible fs_1k fd_S2 zero_memory zero_memory 0 6
   \<and> \<not> fusible fs_1k fd_S2 zero_memory zero_memory 0 7
   \<and> \<not> fusible fs_1k fd_S2 zero_memory zero_memory 0 8"
proof -
  have l: "unat (logBlockSize sb_1k) \<le> 6" by (simp add: sb_1k_def)
  have m: "\<lparr> it_progress = 0, it_locks = [], it_issue = (100, 5) \<rparr>
        \<in> set (fst (readData_loop fs_1k fd_S2 zero_memory zero_memory 0 8 0))"
    by (simp add: loop_S2_8)
  show ?thesis
    using fuse_maximal_within_request [OF init_sb_1k l m] init_sb_1k l m by simp
qed

subsection \<open>The logical-to-physical mapping\<close>

lemma init_slot_size:
  assumes "init sb = Inr fs" "blockShift fs \<le> 12"
  shows "slot_size fs = pageSize"
  using assms init_blockPagesShift [OF assms(1)]
  by (simp add: slot_size_def pageSize_def pageShift_def max_def)

lemma iteration_run:
  assumes i: "init sb = Inr fs"
    and it: "it \<in> set (fst (readData_loop fs fd mem1 mem2 offset num_blocks progress))"
    and k: "k < snd (it_issue it)"
  shows "offset + it_progress it + k < d_range fs"
    and "fst (it_issue it) + k = unat (physical_block fs fd mem1 mem2 (offset + it_progress it + k))"
    and "it_locks it = block_locks fs (offset + it_progress it + k)"
proof -
  let ?L = "offset + it_progress it"
  let ?rem = "num_blocks - it_progress it"
  let ?tab = "backing_table fs fd mem1 mem2 ?L"
  let ?idx = "table_index fs ?L"
  let ?lim = "table_limit fs ?L"
  let ?n = "snd (it_issue it)"
  note f = iteration_fuse [OF i it]
  have L: "?L < d_range fs" by (rule f(4))
  have rem: "1 \<le> ?rem" using f(3) by simp
  have idx: "?idx < ?lim" by (rule table_index_less [OF i L])
  have n: "?n = snd (fuse ?idx ?rem ?tab ?lim)" by (simp add: f(2))
  note s = fuse_spec [OF rem idx, of ?tab, folded n]
  have inside: "?idx + k < ?lim" using s(4) k by simp
  note b = bucket_run [OF i L inside]
  show "?L + k < d_range fs" by (rule b(6))
  have "fst (it_issue it) = unat (?tab ?idx)"
    using s(1) by (simp add: f(2))
  moreover have "unat (?tab (?idx + k)) = unat (?tab ?idx) + k"
    using s(5) k by (simp add: contig_def)
  ultimately show "fst (it_issue it) + k = unat (physical_block fs fd mem1 mem2 (?L + k))"
    by (simp add: physical_block_table b(2) b(4))
  show "it_locks it = block_locks fs (?L + k)"
    by (simp add: f(1) b(5))
qed

lemma readData_loop_covers:
  "readData_loop fs fd mem1 mem2 offset num_blocks progress = (its, Inr ()) \<Longrightarrow>
   progress \<le> j \<Longrightarrow> j < num_blocks \<Longrightarrow>
   \<exists>it\<in>set its. it_progress it \<le> j \<and> j < it_progress it + snd (it_issue it)"
proof (induction fs fd mem1 mem2 offset num_blocks progress arbitrary: its
    rule: readData_loop.induct)
  case (1 fs fd mem1 mem2 offset num_blocks progress)
  have lt: "progress < num_blocks" using "1.prems" by simp
  have dr: "offset + progress < d_range fs"
    using "1.prems"(1) lt by (subst (asm) readData_loop.simps) (auto simp: Let_def split: if_splits)
  obtain locks issue where li:
    "readData_issue fs fd mem1 mem2 (offset + progress) (num_blocks - progress) = (locks, issue)"
    by (cases "readData_issue fs fd mem1 mem2 (offset + progress) (num_blocks - progress)")
  let ?it = "\<lparr> it_progress = progress, it_locks = locks, it_issue = issue \<rparr>"
  have nz: "fst issue \<noteq> 0"
    using "1.prems"(1) lt dr li
    by (subst (asm) readData_loop.simps) (auto simp: Let_def split: if_splits)
  obtain rest r where rr:
    "readData_loop fs fd mem1 mem2 offset num_blocks (progress + snd issue) = (rest, r)"
    by (cases "readData_loop fs fd mem1 mem2 offset num_blocks (progress + snd issue)")
  have eq: "readData_loop fs fd mem1 mem2 offset num_blocks progress = (?it # rest, r)"
    using lt dr li nz rr by (subst readData_loop.simps) (simp add: Let_def)
  with "1.prems"(1) have its: "its = ?it # rest" and r: "r = Inr ()" by simp_all
  show ?case
  proof (cases "j < progress + snd issue")
    case True
    with "1.prems"(2) its show ?thesis by simp
  next
    case False
    then have le: "progress + snd issue \<le> j" by simp
    have "\<not> \<not> offset + progress < d_range fs" using dr by simp
    from "1.IH" [OF lt refl this refl li [symmetric] refl nz rr [unfolded r] le "1.prems"(3)]
    show ?thesis using its by auto
  qed
qed

text \<open>
  Claim C1. Every logical block \<open>L\<close> that \<^verbatim>\<open>readData\<close> handles, that is block \<open>k\<close> of a run
  it issues, lies below \<open>d_range\<close>; the physical block read for it is the entry the
  specification names (\<open>direct[L]\<close>, entry \<open>L - 12\<close> of the table in slot 0 of
  \<^verbatim>\<open>indirectOrder1\<close>, or entry \<open>(L - s_range) mod per_indirect\<close> of the leaf in slot
  \<open>(L - s_range) div per_indirect\<close> of \<^verbatim>\<open>indirectOrder2\<close>), and the iteration locks and
  maps exactly that slot. When the request succeeds the runs cover every requested block.
  The slot is one 4096-byte page for block sizes up to 4096.
\<close>

theorem block_mapping:
  assumes i: "init sb = Inr fs" and "unat (logBlockSize sb) \<le> 6"
    and loop: "readData_loop fs fd mem1 mem2 offset num_blocks 0 = (its, r)"
  shows "(\<forall>it\<in>set its. \<forall>k. k < snd (it_issue it) \<longrightarrow>
            offset + it_progress it + k < d_range fs
            \<and> fst (it_issue it) + k
                = unat (physical_block fs fd mem1 mem2 (offset + it_progress it + k))
            \<and> it_locks it = block_locks fs (offset + it_progress it + k))
    \<and> (r = Inr () \<longrightarrow>
          (\<forall>j<num_blocks. \<exists>it\<in>set its.
             it_progress it \<le> j \<and> j < it_progress it + snd (it_issue it)))
    \<and> (blockShift fs \<le> 12 \<longrightarrow> slot_size fs = pageSize)"
proof (intro conjI ballI allI impI)
  fix it k
  assume "it \<in> set its" and k: "k < snd (it_issue it)"
  then have it: "it \<in> set (fst (readData_loop fs fd mem1 mem2 offset num_blocks 0))"
    using loop by simp
  show "offset + it_progress it + k < d_range fs"
    by (rule iteration_run(1) [OF i it k])
  show "fst (it_issue it) + k
      = unat (physical_block fs fd mem1 mem2 (offset + it_progress it + k))"
    by (rule iteration_run(2) [OF i it k])
  show "it_locks it = block_locks fs (offset + it_progress it + k)"
    by (rule iteration_run(3) [OF i it k])
next
  fix j
  assume "r = Inr ()" and "j < num_blocks"
  then show "\<exists>it\<in>set its. it_progress it \<le> j \<and> j < it_progress it + snd (it_issue it)"
    using readData_loop_covers [of fs fd mem1 mem2 offset num_blocks 0 its j] loop by simp
next
  assume "blockShift fs \<le> 12"
  then show "slot_size fs = pageSize" by (rule init_slot_size [OF i])
qed

lemmas memory_eval = mapped_u32_def bytes_memory_def word_rcat_def

lemma loop_S5: "readData_loop fs_1k fd_S5 mem1_S5 zero_memory 10 5 0
    = ([\<lparr> it_progress = 0, it_locks = [], it_issue = (110, 2) \<rparr>,
        \<lparr> it_progress = 2, it_locks = [LockMemory indirectOrder1 0 4096,
            MapMemory indirectOrder1 0 4096], it_issue = (200, 3) \<rparr>], Inr ())"
  by (simp add: readData_eval memory_eval fs_1k_def fd_S5_def mem1_S5_def)

text \<open>The double-indirect branch on 1024-byte blocks: logical block \<open>268 + 300\<close> is entry
  \<open>300 mod 256 = 44\<close> of slot \<open>300 div 256 = 1\<close> of \<^verbatim>\<open>indirectOrder2\<close>.\<close>

lemma readData_issue_double_indirect:
  "readData_issue fs_1k fd_S2 zero_memory mem2_S7 568 1
     = ([LockMemory indirectOrder2 4096 4096, MapMemory indirectOrder2 4096 4096], (777, 1))"
  by (simp add: readData_issue_def fuse_def fuse_loop.simps s_range_def i_range_def
      per_indirect_def fs_1k_def mapped_u32_def mem2_S7_def word_rcat_def drop_bit_eq_div
      mask_eq_mod')

text \<open>
  Claim C1, witness: five blocks from block 10 of a file with 1024-byte blocks. The second
  run starts at block 12, in the single-indirect table; block 14 is read from physical
  block 202, entry 2 of the table locked at offset 0 of \<^verbatim>\<open>indirectOrder1\<close>.
\<close>

theorem block_mapping_witness:
  "init sb_1k = Inr fs_1k \<and> unat (logBlockSize sb_1k) \<le> 6
   \<and> readData_loop fs_1k fd_S5 mem1_S5 zero_memory 10 5 0
       = ([\<lparr> it_progress = 0, it_locks = [], it_issue = (110, 2) \<rparr>,
           \<lparr> it_progress = 2, it_locks = [LockMemory indirectOrder1 0 4096,
               MapMemory indirectOrder1 0 4096], it_issue = (200, 3) \<rparr>], Inr ())
   \<and> 14 < d_range fs_1k
   \<and> unat (physical_block fs_1k fd_S5 mem1_S5 zero_memory 14) = 202
   \<and> block_locks fs_1k 14 = [LockMemory indirectOrder1 0 4096, MapMemory indirectOrder1 0 4096]
   \<and> slot_size fs_1k = pageSize"
proof -
  have l: "unat (logBlockSize sb_1k) \<le> 6" by (simp add: sb_1k_def)
  note bm = block_mapping [OF init_sb_1k l loop_S5]
  let ?it = "\<lparr> it_progress = 2, it_locks = [LockMemory indirectOrder1 0 4096,
               MapMemory indirectOrder1 0 4096], it_issue = (200, 3) \<rparr>"
  from bm have "\<forall>k. k < snd (it_issue ?it) \<longrightarrow>
      10 + it_progress ?it + k < d_range fs_1k
      \<and> fst (it_issue ?it) + k
          = unat (physical_block fs_1k fd_S5 mem1_S5 zero_memory (10 + it_progress ?it + k))
      \<and> it_locks ?it = block_locks fs_1k (10 + it_progress ?it + k)"
    by simp
  then have "(2::nat) < snd (it_issue ?it) \<longrightarrow>
      10 + it_progress ?it + 2 < d_range fs_1k
      \<and> fst (it_issue ?it) + 2
          = unat (physical_block fs_1k fd_S5 mem1_S5 zero_memory (10 + it_progress ?it + 2))
      \<and> it_locks ?it = block_locks fs_1k (10 + it_progress ?it + 2)"
    by (rule spec)
  then have "14 < d_range fs_1k
      \<and> unat (physical_block fs_1k fd_S5 mem1_S5 zero_memory 14) = 202
      \<and> block_locks fs_1k 14 = [LockMemory indirectOrder1 0 4096, MapMemory indirectOrder1 0 4096]"
    by simp
  moreover have "slot_size fs_1k = pageSize"
    using bm by (simp add: fs_1k_def)
  ultimately show ?thesis
    using init_sb_1k l loop_S5 by simp
qed

subsection \<open>No read of block zero\<close>

lemma readData_events:
  "fst (readData fs fd mem1 mem2 offset num_blocks buffer) =
     concat (map (iteration_events fs buffer)
       (fst (readData_loop fs fd mem1 mem2 offset num_blocks 0)))"
  and readData_status:
  "snd (readData fs fd mem1 mem2 offset num_blocks buffer) =
     snd (readData_loop fs fd mem1 mem2 offset num_blocks 0)"
  by (simp_all add: readData_def split: prod.splits)

lemma block_locks_no_read: "ReadSectors s b c \<notin> set (block_locks fs L)"
  by (simp add: block_locks_def)

lemma readData_loop_hole:
  "snd (readData_loop fs fd mem1 mem2 offset num_blocks progress) = Inl HoleEncountered \<Longrightarrow>
   \<exists>it\<in>set (fst (readData_loop fs fd mem1 mem2 offset num_blocks progress)).
      fst (it_issue it) = 0"
proof (induction fs fd mem1 mem2 offset num_blocks progress rule: readData_loop.induct)
  case (1 fs fd mem1 mem2 offset num_blocks progress)
  have lt: "progress < num_blocks" and dr: "offset + progress < d_range fs"
    using "1.prems" by (subst (asm) readData_loop.simps; auto simp: Let_def split: if_splits)+
  obtain locks issue where li:
    "readData_issue fs fd mem1 mem2 (offset + progress) (num_blocks - progress) = (locks, issue)"
    by (cases "readData_issue fs fd mem1 mem2 (offset + progress) (num_blocks - progress)")
  let ?it = "\<lparr> it_progress = progress, it_locks = locks, it_issue = issue \<rparr>"
  show ?case
  proof (cases "fst issue = 0")
    case True
    have "readData_loop fs fd mem1 mem2 offset num_blocks progress = ([?it], Inl HoleEncountered)"
      using lt dr li True by (subst readData_loop.simps) (simp add: Let_def)
    with True show ?thesis by simp
  next
    case nz: False
    obtain rest r where rr:
      "readData_loop fs fd mem1 mem2 offset num_blocks (progress + snd issue) = (rest, r)"
      by (cases "readData_loop fs fd mem1 mem2 offset num_blocks (progress + snd issue)")
    have eq: "readData_loop fs fd mem1 mem2 offset num_blocks progress = (?it # rest, r)"
      using lt dr li nz rr by (subst readData_loop.simps) (simp add: Let_def)
    with "1.prems" have "snd (readData_loop fs fd mem1 mem2 offset num_blocks (progress + snd issue))
        = Inl HoleEncountered"
      using rr by simp
    moreover have "\<not> \<not> offset + progress < d_range fs" using dr by simp
    ultimately have "\<exists>it\<in>set (fst (readData_loop fs fd mem1 mem2 offset num_blocks
        (progress + snd issue))). fst (it_issue it) = 0"
      using "1.IH" [OF lt refl _ refl li [symmetric] refl nz] by blast
    then show ?thesis using eq rr by auto
  qed
qed

text \<open>
  Claim C9. Every sector read of \<^verbatim>\<open>readData\<close> starts at a nonzero physical block (the block
  the mapping gives for the first block of the run) and so at a nonzero sector; and when
  the table entries of all requested blocks are nonzero, the assertion
  \<^verbatim>\<open>issue.first != 0\<close> does not fire.
\<close>

theorem no_read_of_block_zero:
  assumes i: "init sb = Inr fs" and "unat (logBlockSize sb) \<le> 6"
  shows "(\<forall>s b c. ReadSectors s b c \<in> set (fst (readData fs fd mem1 mem2 offset num_blocks buffer))
            \<longrightarrow> (\<exists>it\<in>set (fst (readData_loop fs fd mem1 mem2 offset num_blocks 0)).
                   fst (it_issue it) \<noteq> 0 \<and> s = fst (it_issue it) * sectorsPerBlock fs
                   \<and> fst (it_issue it)
                       = unat (physical_block fs fd mem1 mem2 (offset + it_progress it)))
                \<and> s \<noteq> 0)
    \<and> ((\<forall>j<num_blocks. offset + j < d_range fs
            \<longrightarrow> physical_block fs fd mem1 mem2 (offset + j) \<noteq> 0)
         \<longrightarrow> snd (readData fs fd mem1 mem2 offset num_blocks buffer) \<noteq> Inl HoleEncountered)"
proof (intro conjI allI impI)
  fix s b c
  assume "ReadSectors s b c \<in> set (fst (readData fs fd mem1 mem2 offset num_blocks buffer))"
  then obtain it where it: "it \<in> set (fst (readData_loop fs fd mem1 mem2 offset num_blocks 0))"
    and ev: "ReadSectors s b c \<in> set (iteration_events fs buffer it)"
    by (auto simp: readData_events)
  have locks: "it_locks it = block_locks fs (offset + it_progress it)"
    by (rule iteration_fuse(1) [OF i it])
  from ev have nz: "fst (it_issue it) \<noteq> 0" and s: "s = fst (it_issue it) * sectorsPerBlock fs"
    by (auto simp: iteration_events_def locks block_locks_no_read split: if_splits)
  have "0 < snd (it_issue it)"
    using readData_loop_iteration [OF it] readData_issue_count_pos
    by (metis snd_conv)
  from iteration_run(2) [OF i it this]
  have "fst (it_issue it) = unat (physical_block fs fd mem1 mem2 (offset + it_progress it))"
    by simp
  with it nz s
  show "\<exists>it\<in>set (fst (readData_loop fs fd mem1 mem2 offset num_blocks 0)).
      fst (it_issue it) \<noteq> 0 \<and> s = fst (it_issue it) * sectorsPerBlock fs
      \<and> fst (it_issue it) = unat (physical_block fs fd mem1 mem2 (offset + it_progress it))"
    by blast
  have "0 < sectorsPerBlock fs"
    using i by (auto simp: init_def Let_def push_bit_eq_mult split: if_splits)
  with nz s show "s \<noteq> 0" by simp
next
  assume entries: "\<forall>j<num_blocks. offset + j < d_range fs
      \<longrightarrow> physical_block fs fd mem1 mem2 (offset + j) \<noteq> 0"
  show "snd (readData fs fd mem1 mem2 offset num_blocks buffer) \<noteq> Inl HoleEncountered"
  proof
    assume "snd (readData fs fd mem1 mem2 offset num_blocks buffer) = Inl HoleEncountered"
    then obtain it where it: "it \<in> set (fst (readData_loop fs fd mem1 mem2 offset num_blocks 0))"
      and z: "fst (it_issue it) = 0"
      using readData_loop_hole [of fs fd mem1 mem2 offset num_blocks 0]
      by (auto simp: readData_status)
    have "0 < snd (it_issue it)"
      using readData_loop_iteration [OF it] readData_issue_count_pos
      by (metis snd_conv)
    from iteration_run(2) [OF i it this] z
    have "unat (physical_block fs fd mem1 mem2 (offset + it_progress it)) = 0"
      by simp
    then have "physical_block fs fd mem1 mem2 (offset + it_progress it) = 0"
      by (simp add: unat_eq_0)
    moreover have "it_progress it < num_blocks" "offset + it_progress it < d_range fs"
      using iteration_fuse(3,4) [OF i it] by simp_all
    ultimately show False using entries by blast
  qed
qed

lemma readData_S5: "readData fs_1k fd_S5 mem1_S5 zero_memory 10 5 0
    = ([ReadSectors 220 0 4, LockMemory indirectOrder1 0 4096, MapMemory indirectOrder1 0 4096,
        ReadSectors 400 2048 6], Inr ())"
  by (simp add: readData_def loop_S5 iteration_events_def) (simp add: fs_1k_def)

lemma physical_S5:
  "\<forall>j<5. 10 + j < d_range fs_1k \<longrightarrow> physical_block fs_1k fd_S5 mem1_S5 zero_memory (10 + j) \<noteq> 0"
  by (simp add: all_less_upt upt_rec [of _ "numeral _"] physical_block_def memory_eval
      fs_1k_def fd_S5_def mem1_S5_def s_range_def i_range_def per_indirect_def)

text \<open>
  Claim C9, witness: the request of five blocks from block 10; its second read starts at
  sector 400, the table entries are nonzero and no assertion fires.
\<close>

theorem no_read_of_block_zero_witness:
  "init sb_1k = Inr fs_1k \<and> unat (logBlockSize sb_1k) \<le> 6
   \<and> ReadSectors 400 2048 6 \<in> set (fst (readData fs_1k fd_S5 mem1_S5 zero_memory 10 5 0))
   \<and> (400::nat) \<noteq> 0
   \<and> physical_block fs_1k fd_S5 mem1_S5 zero_memory 12 \<noteq> 0
   \<and> snd (readData fs_1k fd_S5 mem1_S5 zero_memory 10 5 0) \<noteq> Inl HoleEncountered"
proof -
  have l: "unat (logBlockSize sb_1k) \<le> 6" by (simp add: sb_1k_def)
  note t = no_read_of_block_zero [OF init_sb_1k l, of fd_S5 mem1_S5 zero_memory 10 5 0]
  have r: "ReadSectors 400 2048 6 \<in> set (fst (readData fs_1k fd_S5 mem1_S5 zero_memory 10 5 0))"
    by (simp add: readData_S5)
  have "snd (readData fs_1k fd_S5 mem1_S5 zero_memory 10 5 0) \<noteq> Inl HoleEncountered"
    using t physical_S5 by blast
  moreover have "physical_block fs_1k fd_S5 mem1_S5 zero_memory 12 \<noteq> 0"
    using physical_S5 [THEN spec, of 2] by (simp add: d_range_def s_range_def i_range_def
        per_indirect_def fs_1k_def)
  ultimately show ?thesis
    using init_sb_1k l r by simp
qed

subsection \<open>Fused reads and per-block reads\<close>

lemma deliver_append: "deliver dev (es @ es') mem = deliver dev es' (deliver dev es mem)"
  by (induction dev es mem rule: deliver.induct) simp_all

lemma deliver_block_locks: "deliver dev (block_locks fs L) mem = mem"
  by (simp add: block_locks_def)

lemma readSectors_join:
  "readSectors dev (s + c) (b + c * 512) c' (readSectors dev s b c mem)
     = readSectors dev s b (c + c') mem"
  by (rule ext) (auto simp: readSectors_def algebra_simps)

lemma readData_single:
  assumes i: "init sb = Inr fs"
  shows "readData fs fd mem1 mem2 L (Suc 0) buf =
    (if \<not> L < d_range fs then ([], Inl TripleIndirectUnsupported)
     else if physical_block fs fd mem1 mem2 L = 0 then (block_locks fs L, Inl HoleEncountered)
     else (block_locks fs L @
           [ReadSectors (unat (physical_block fs fd mem1 mem2 L) * sectorsPerBlock fs) buf
              (sectorsPerBlock fs)], Inr ()))"
proof -
  have next_loop: "readData_loop fs fd mem1 mem2 L (Suc 0) (Suc 0) = ([], Inr ())"
    by (subst readData_loop.simps) simp
  have fuse1: "fuse index (Suc 0) list limit = (unat (list index), Suc 0)" for index list limit
    using fuse_one [of index list limit] by simp
  have "readData_loop fs fd mem1 mem2 L (Suc 0) 0 =
    (if \<not> L < d_range fs then ([], Inl TripleIndirectUnsupported)
     else if physical_block fs fd mem1 mem2 L = 0
     then ([\<lparr> it_progress = 0, it_locks = block_locks fs L, it_issue = (0, Suc 0) \<rparr>],
           Inl HoleEncountered)
     else ([\<lparr> it_progress = 0, it_locks = block_locks fs L,
              it_issue = (unat (physical_block fs fd mem1 mem2 L), Suc 0) \<rparr>], Inr ()))"
    by (subst readData_loop.simps)
      (simp add: readData_issue_eq [OF i] fuse1 physical_block_table next_loop unat_eq_0)
  then show ?thesis
    by (simp add: readData_def iteration_events_def unat_eq_0)
qed

lemma per_block_reads_append:
  "per_block_reads fs fd mem1 mem2 offset buffer j (a + b) =
     (case per_block_reads fs fd mem1 mem2 offset buffer j a of
        (evs, Inl e) \<Rightarrow> (evs, Inl e)
      | (evs, Inr u) \<Rightarrow>
          (case per_block_reads fs fd mem1 mem2 offset buffer (j + a) b of
             (evs', r) \<Rightarrow> (evs @ evs', r)))"
proof (induction a arbitrary: j)
  case 0
  show ?case by (simp split: prod.splits)
next
  case (Suc a)
  show ?case
    by (simp add: Suc.IH split: prod.splits sum.splits)
qed

lemma readSectors_none: "readSectors dev s b 0 mem = mem"
  by (rule ext) (auto simp: readSectors_def)

lemma per_block_run:
  assumes i: "init sb = Inr fs"
    and run: "\<And>k. k < n \<Longrightarrow> offset + p + k < d_range fs
        \<and> unat (physical_block fs fd mem1 mem2 (offset + p + k)) = first + k"
    and nz: "first \<noteq> 0"
  shows "a + c \<le> n \<Longrightarrow>
    snd (per_block_reads fs fd mem1 mem2 offset buffer (p + a) c) = Inr ()
    \<and> deliver dev (fst (per_block_reads fs fd mem1 mem2 offset buffer (p + a) c)) mem
        = readSectors dev ((first + a) * sectorsPerBlock fs) (buffer + (p + a) * blockSize fs)
            (c * sectorsPerBlock fs) mem"
proof (induction c arbitrary: a mem)
  case 0
  show ?case by (simp add: readSectors_none)
next
  case (Suc c)
  have a: "a < n" using Suc.prems by simp
  have bs: "blockSize fs = sectorsPerBlock fs * 512"
    using init_sectorsPerBlock [OF i] by simp
  from run [OF a] have L: "offset + (p + a) < d_range fs"
    and ph: "unat (physical_block fs fd mem1 mem2 (offset + (p + a))) = first + a"
    by (simp_all add: add.assoc)
  have pnz: "physical_block fs fd mem1 mem2 (offset + (p + a)) \<noteq> 0"
    using ph nz by (auto simp: unat_eq_0)
  have single: "readData fs fd mem1 mem2 (offset + (p + a)) 1 (buffer + (p + a) * blockSize fs)
      = (block_locks fs (offset + (p + a)) @
         [ReadSectors ((first + a) * sectorsPerBlock fs) (buffer + (p + a) * blockSize fs)
            (sectorsPerBlock fs)], Inr ())"
    using L pnz ph by (simp add: readData_single [OF i])
  have "Suc a + c \<le> n" using Suc.prems by simp
  note ih = Suc.IH [OF this]
  obtain evs r where pb: "per_block_reads fs fd mem1 mem2 offset buffer (Suc (p + a)) c = (evs, r)"
    by (cases "per_block_reads fs fd mem1 mem2 offset buffer (Suc (p + a)) c")
  have r: "r = Inr ()" using ih pb by simp
  have d: "deliver dev evs m
      = readSectors dev ((first + Suc a) * sectorsPerBlock fs)
          (buffer + (p + Suc a) * blockSize fs) (c * sectorsPerBlock fs) m" for m
    using ih [of m] pb by simp
  have join: "readSectors dev ((first + Suc a) * sectorsPerBlock fs)
        (buffer + (p + Suc a) * blockSize fs) (c * sectorsPerBlock fs)
        (readSectors dev ((first + a) * sectorsPerBlock fs) (buffer + (p + a) * blockSize fs)
           (sectorsPerBlock fs) mem)
      = readSectors dev ((first + a) * sectorsPerBlock fs) (buffer + (p + a) * blockSize fs)
          (Suc c * sectorsPerBlock fs) mem"
    using readSectors_join [of dev "(first + a) * sectorsPerBlock fs" "sectorsPerBlock fs"
        "buffer + (p + a) * blockSize fs" "c * sectorsPerBlock fs" mem]
    by (simp add: bs algebra_simps)
  show ?case
    using single pb r join
    by (simp add: deliver_append deliver_block_locks d)
qed

lemma iteration_count_le:
  assumes i: "init sb = Inr fs"
    and it: "it \<in> set (fst (readData_loop fs fd mem1 mem2 offset num_blocks progress))"
  shows "snd (it_issue it) \<le> num_blocks - it_progress it"
proof -
  note f = iteration_fuse [OF i it]
  have rem: "1 \<le> num_blocks - it_progress it" using f(3) by simp
  have idx: "table_index fs (offset + it_progress it) < table_limit fs (offset + it_progress it)"
    by (rule table_index_less [OF i f(4)])
  show ?thesis
    using fuse_spec(3) [OF rem idx] by (simp add: f(2))
qed

lemma fused_loop_per_block:
  assumes i: "init sb = Inr fs"
  shows "snd (readData_loop fs fd mem1 mem2 offset num_blocks progress)
      = snd (per_block_reads fs fd mem1 mem2 offset buffer progress (num_blocks - progress))
    \<and> (\<forall>mem. deliver dev (concat (map (iteration_events fs buffer)
            (fst (readData_loop fs fd mem1 mem2 offset num_blocks progress)))) mem
          = deliver dev (fst (per_block_reads fs fd mem1 mem2 offset buffer progress
              (num_blocks - progress))) mem)"
  using i
proof (induction fs fd mem1 mem2 offset num_blocks progress rule: readData_loop.induct)
  case (1 fs fd mem1 mem2 offset num_blocks progress)
  note i = "1.prems"
  show ?case
  proof (cases "progress < num_blocks")
    case False
    then have "readData_loop fs fd mem1 mem2 offset num_blocks progress = ([], Inr ())"
      by (subst readData_loop.simps) simp
    with False show ?thesis by simp
  next
    case lt: True
    then obtain c where c: "num_blocks - progress = Suc c"
      by (cases "num_blocks - progress") simp_all
    show ?thesis
    proof (cases "offset + progress < d_range fs")
      case False
      then have "readData_loop fs fd mem1 mem2 offset num_blocks progress
          = ([], Inl TripleIndirectUnsupported)"
        using lt by (subst readData_loop.simps) simp
      with False show ?thesis
        by (simp add: c readData_single [OF i])
    next
      case dr: True
      obtain locks issue where li:
        "readData_issue fs fd mem1 mem2 (offset + progress) (num_blocks - progress) = (locks, issue)"
        by (cases "readData_issue fs fd mem1 mem2 (offset + progress) (num_blocks - progress)")
      let ?it = "\<lparr> it_progress = progress, it_locks = locks, it_issue = issue \<rparr>"
      have first: "fst issue = unat (physical_block fs fd mem1 mem2 (offset + progress))"
        and locks: "locks = block_locks fs (offset + progress)"
        using li by (auto simp: readData_issue_eq [OF i] physical_block_table fuse_def)
      show ?thesis
      proof (cases "fst issue = 0")
        case True
        have "readData_loop fs fd mem1 mem2 offset num_blocks progress
            = ([?it], Inl HoleEncountered)"
          using lt dr li True by (subst readData_loop.simps) (simp add: Let_def)
        moreover have "physical_block fs fd mem1 mem2 (offset + progress) = 0"
          using True first by (simp add: unat_eq_0)
        ultimately show ?thesis
          using dr True by (simp add: c readData_single [OF i] iteration_events_def locks)
      next
        case nz: False
        obtain rest r where rr:
          "readData_loop fs fd mem1 mem2 offset num_blocks (progress + snd issue) = (rest, r)"
          by (cases "readData_loop fs fd mem1 mem2 offset num_blocks (progress + snd issue)")
        have eq: "readData_loop fs fd mem1 mem2 offset num_blocks progress = (?it # rest, r)"
          using lt dr li nz rr by (subst readData_loop.simps) (simp add: Let_def)
        then have it: "?it \<in> set (fst (readData_loop fs fd mem1 mem2 offset num_blocks progress))"
          by simp
        have n: "snd issue \<le> num_blocks - progress"
          using iteration_count_le [OF i it] by simp
        have run: "offset + progress + k < d_range fs
            \<and> unat (physical_block fs fd mem1 mem2 (offset + progress + k)) = fst issue + k"
          if "k < snd issue" for k
          using iteration_run(1,2) [OF i it, of k] that by simp
        have pr: "snd (per_block_reads fs fd mem1 mem2 offset buffer progress (snd issue)) = Inr ()
            \<and> deliver dev (fst (per_block_reads fs fd mem1 mem2 offset buffer progress
                  (snd issue))) m
              = readSectors dev (fst issue * sectorsPerBlock fs)
                  (buffer + progress * blockSize fs) (snd issue * sectorsPerBlock fs) m" for m
          using per_block_run [OF i run nz, where a = 0 and c = "snd issue" and buffer = buffer
              and dev = dev and mem = m]
          by simp
        have split: "num_blocks - progress = snd issue + (num_blocks - (progress + snd issue))"
          using n by simp
        have "\<not> \<not> offset + progress < d_range fs" using dr by simp
        note ih = "1.IH" [OF lt refl this refl li [symmetric] refl nz i]
        obtain e1 r1 where p1:
          "per_block_reads fs fd mem1 mem2 offset buffer progress (snd issue) = (e1, r1)"
          by (cases "per_block_reads fs fd mem1 mem2 offset buffer progress (snd issue)")
        obtain e2 r2 where p2:
          "per_block_reads fs fd mem1 mem2 offset buffer (progress + snd issue)
             (num_blocks - (progress + snd issue)) = (e2, r2)"
          by (cases "per_block_reads fs fd mem1 mem2 offset buffer (progress + snd issue)
             (num_blocks - (progress + snd issue))")
        have r1: "r1 = Inr ()" using pr p1 by simp
        have d1: "deliver dev e1 m
            = readSectors dev (fst issue * sectorsPerBlock fs) (buffer + progress * blockSize fs)
                (snd issue * sectorsPerBlock fs) m" for m
          using pr [of m] p1 by simp
        have whole: "per_block_reads fs fd mem1 mem2 offset buffer progress (num_blocks - progress)
            = (e1 @ e2, r2)"
          by (subst split, subst per_block_reads_append) (simp add: p1 p2 r1)
        show ?thesis
          using ih rr p2 nz
          by (simp add: eq whole deliver_append iteration_events_def locks deliver_block_locks d1)
      qed
    qed
  qed
qed

text \<open>
  Claim C3. For every request, the sector reads of \<^verbatim>\<open>readData\<close> leave in memory the same
  bytes as reading the same logical blocks one at a time in the same order, whatever the
  device and the memory hold; and both end the same way (normally, or by the same
  assertion).
\<close>

theorem fused_read_equals_per_block_reads:
  assumes i: "init sb = Inr fs" and "unat (logBlockSize sb) \<le> 6"
  shows "deliver dev (fst (readData fs fd mem1 mem2 offset num_blocks buffer)) mem
      = deliver dev (fst (per_block_reads fs fd mem1 mem2 offset buffer 0 num_blocks)) mem
    \<and> snd (readData fs fd mem1 mem2 offset num_blocks buffer)
      = snd (per_block_reads fs fd mem1 mem2 offset buffer 0 num_blocks)"
  using fused_loop_per_block [OF i, of fd mem1 mem2 offset num_blocks 0 buffer dev]
  by (simp add: readData_events readData_status)

lemma per_block_reads_numeral:
  "per_block_reads fs fd mem1 mem2 offset buffer j (numeral n) =
     (case readData fs fd mem1 mem2 (offset + j) (Suc 0) (buffer + j * blockSize fs) of
        (evs, Inl e) \<Rightarrow> (evs, Inl e)
      | (evs, Inr u) \<Rightarrow>
          (case per_block_reads fs fd mem1 mem2 offset buffer (Suc j) (pred_numeral n) of
             (evs', r) \<Rightarrow> (evs @ evs', r)))"
  by (simp add: numeral_eq_Suc)

lemma fs_1k_eval:
  "blockSize fs_1k = 1024" "sectorsPerBlock fs_1k = 2" "per_indirect fs_1k = 256"
  "s_range fs_1k = 268" "d_range fs_1k = 65804" "slot_size fs_1k = 4096"
  by (simp_all add: fs_1k_def per_indirect_def s_range_def d_range_def i_range_def slot_size_def)

lemma physical_block_S5:
  "physical_block fs_1k fd_S5 mem1_S5 zero_memory 10 = 110"
  "physical_block fs_1k fd_S5 mem1_S5 zero_memory 11 = 111"
  "physical_block fs_1k fd_S5 mem1_S5 zero_memory 12 = 200"
  "physical_block fs_1k fd_S5 mem1_S5 zero_memory 13 = 201"
  "physical_block fs_1k fd_S5 mem1_S5 zero_memory 14 = 202"
  by (simp_all add: physical_block_def fs_1k_eval memory_eval fd_S5_def mem1_S5_def)

lemma per_block_S5: "per_block_reads fs_1k fd_S5 mem1_S5 zero_memory 10 0 0 5
    = ([ReadSectors 220 0 2, ReadSectors 222 1024 2,
        LockMemory indirectOrder1 0 4096, MapMemory indirectOrder1 0 4096,
        ReadSectors 400 2048 2,
        LockMemory indirectOrder1 0 4096, MapMemory indirectOrder1 0 4096,
        ReadSectors 402 3072 2,
        LockMemory indirectOrder1 0 4096, MapMemory indirectOrder1 0 4096,
        ReadSectors 404 4096 2], Inr ())"
  by (simp add: per_block_reads_numeral readData_single [OF init_sb_1k] physical_block_S5
      block_locks_def fs_1k_eval)

text \<open>
  Claim C3, witness: the request of five blocks from block 10. Two fused reads (4 and 6
  sectors) against five reads of one block each.
\<close>

theorem fused_read_equals_per_block_reads_witness:
  "init sb_1k = Inr fs_1k \<and> unat (logBlockSize sb_1k) \<le> 6
   \<and> fst (readData fs_1k fd_S5 mem1_S5 zero_memory 10 5 0)
       = [ReadSectors 220 0 4, LockMemory indirectOrder1 0 4096, MapMemory indirectOrder1 0 4096,
          ReadSectors 400 2048 6]
   \<and> fst (per_block_reads fs_1k fd_S5 mem1_S5 zero_memory 10 0 0 5)
       = [ReadSectors 220 0 2, ReadSectors 222 1024 2,
          LockMemory indirectOrder1 0 4096, MapMemory indirectOrder1 0 4096,
          ReadSectors 400 2048 2,
          LockMemory indirectOrder1 0 4096, MapMemory indirectOrder1 0 4096,
          ReadSectors 402 3072 2,
          LockMemory indirectOrder1 0 4096, MapMemory indirectOrder1 0 4096,
          ReadSectors 404 4096 2]
   \<and> deliver dev_ramp (fst (readData fs_1k fd_S5 mem1_S5 zero_memory 10 5 0)) zero_memory
       = deliver dev_ramp (fst (per_block_reads fs_1k fd_S5 mem1_S5 zero_memory 10 0 0 5))
           zero_memory
   \<and> snd (readData fs_1k fd_S5 mem1_S5 zero_memory 10 5 0)
       = snd (per_block_reads fs_1k fd_S5 mem1_S5 zero_memory 10 0 0 5)"
proof -
  have l: "unat (logBlockSize sb_1k) \<le> 6" by (simp add: sb_1k_def)
  show ?thesis
    using fused_read_equals_per_block_reads [OF init_sb_1k l, of dev_ramp fd_S5 mem1_S5
        zero_memory 10 5 0 zero_memory] init_sb_1k l
    by (simp add: readData_S5 per_block_S5)
qed

subsection \<open>The file-data handler\<close>

lemma cache_size_le: "n < 2 ^ 32 \<Longrightarrow> cache_size n \<le> n + 4095"
proof -
  assume n: "n < 2 ^ 32"
  let ?w = "word_of_nat n + 0xFFF :: 64 word"
  have "?w AND NOT 0xFFF \<le> ?w" by (rule word_and_le2)
  then have "cache_size n \<le> unat ?w"
    by (simp add: cache_size_def word_le_nat_alt)
  also have "unat ?w \<le> n + 4095"
    by (simp add: unat_word_ariths unat_of_nat)
  finally show ?thesis .
qed

lemma cache_size_bound: "cache_size n < 2 ^ 64"
  using unsigned_less [of "(word_of_nat n + 0xFFF :: 64 word) AND NOT 0xFFF", where 'a = nat]
  by (simp add: cache_size_def)

lemma ceil_div_eq:
  assumes "0 < b"
  shows "a div b + (if a mod b \<noteq> 0 then 1 else 0) = ceil_div a b"
proof -
  define r where "r = a mod b"
  define q where "q = a div b"
  have a: "a = r + q * b" by (simp add: q_def r_def)
  have r: "r < b" using assms by (simp add: r_def)
  have b: "b \<noteq> 0" using assms by simp
  show ?thesis
  proof (cases "r = 0")
    case True
    have "a + b - 1 = (b - 1) + q * b" using a True assms by simp
    then have "(a + b - 1) div b = ((b - 1) + q * b) div b" by simp
    also have "\<dots> = q + (b - 1) div b" by (rule div_mult_self1 [OF b])
    also have "\<dots> = q" using assms by simp
    finally show ?thesis using True by (simp add: ceil_div_def q_def r_def)
  next
    case False
    have "a + b - 1 = (r - 1) + (q + 1) * b" using a False by (simp add: algebra_simps)
    then have "(a + b - 1) div b = ((r - 1) + (q + 1) * b) div b" by simp
    also have "\<dots> = (q + 1) + (r - 1) div b" by (rule div_mult_self1 [OF b])
    also have "\<dots> = q + 1" using r by simp
    finally show ?thesis using False by (simp add: ceil_div_def q_def r_def)
  qed
qed

lemma read_size_no_wrap:
  assumes fsz: "fsize < 2 ^ 32"
    and sized: "len mod pageSize = 0"
    and inside: "offset + len \<le> cache_size fsize"
  shows "min len (nat ((int fsize - int offset) mod 2 ^ 64)) = min len (fsize - offset)"
proof (cases "len = 0")
  case True
  then show ?thesis by simp
next
  case False
  have "4096 \<le> len"
  proof (rule ccontr)
    assume "\<not> 4096 \<le> len"
    then have "len mod pageSize = len" by (simp add: pageSize_def pageShift_def)
    with sized False show False by simp
  qed
  with inside cache_size_le [OF fsz] have lt: "offset < fsize" by simp
  then have "0 \<le> int fsize - int offset" "int fsize - int offset < 2 ^ 64"
    using fsz by simp_all
  then have "(int fsize - int offset) mod 2 ^ 64 = int fsize - int offset"
    by simp
  then show ?thesis using lt by simp
qed

text \<open>
  Claim C5. For every manage event \<open>(offset, len)\<close> that lies inside the page cache of the
  file and whose length is a multiple of the page size, the file-data handler maps the
  range, computes \<open>read_size = min(len, fileSize - offset)\<close> and
  \<open>num_blocks = ceil(read_size / blockSize)\<close>, fails its assertions unless
  \<open>offset mod blockSize = 0\<close> and \<open>num_blocks * blockSize \<le> len\<close>, calls
  \<^verbatim>\<open>readData\<close> with start block \<open>offset div blockSize\<close>, count \<open>num_blocks\<close> and the
  mapped window, and, when that returns, completes the load over exactly
  \<open>(offset, len)\<close> and unmaps. The file size is a 32-bit value.
\<close>

theorem manageFileData_event_spec:
  assumes i: "init sb = Inr fs" and "unat (logBlockSize sb) \<le> 6"
    and fsz: "fsize < 2 ^ 32"
    and sized: "len mod pageSize = 0"
    and inside: "offset + len \<le> cache_size fsize"
  shows "manageFileData_event fs fd fsize mem1 mem2 window (offset, len) =
     (let read_size = min len (fsize - offset);
          num_blocks = ceil_div read_size (blockSize fs)
      in if offset mod blockSize fs = 0 \<and> num_blocks * blockSize fs \<le> len then
           (case readData fs fd mem1 mem2 (offset div blockSize fs) num_blocks window of
              (evs, Inl e) \<Rightarrow> (MapMemory backingMemory offset len # evs, Inl e)
            | (evs, Inr u) \<Rightarrow>
                (MapMemory backingMemory offset len # evs
                   @ [CompleteLoad backingMemory offset len, UnmapMemory window len], Inr ()))
         else ([MapMemory backingMemory offset len], Inl AlignmentViolation))"
proof -
  have "offset + len < 2 ^ 64"
    using inside cache_size_bound [of fsize] by simp
  then have sum: "(offset + len) mod 2 ^ 64 = offset + len" by simp
  have bs: "0 < blockSize fs" by (simp add: init_blockSize [OF i])
  note rs = read_size_no_wrap [OF fsz sized inside]
  have "manageFileData_event fs fd fsize mem1 mem2 window (offset, len) =
     (if \<not> offset + len \<le> cache_size fsize then ([], Inl AlignmentViolation)
      else if \<not> offset mod blockSize fs = 0
      then ([MapMemory backingMemory offset len], Inl AlignmentViolation)
      else if \<not> ceil_div (min len (fsize - offset)) (blockSize fs) * blockSize fs \<le> len
      then ([MapMemory backingMemory offset len], Inl AlignmentViolation)
      else
        (case readData fs fd mem1 mem2 (offset div blockSize fs)
                (ceil_div (min len (fsize - offset)) (blockSize fs)) window of
           (evs, Inl e) \<Rightarrow> ([MapMemory backingMemory offset len] @ evs, Inl e)
         | (evs, Inr u) \<Rightarrow>
             ([MapMemory backingMemory offset len] @ evs
                @ [CompleteLoad backingMemory offset len, UnmapMemory window len], Inr ())))"
    unfolding manageFileData_event_def Let_def fst_conv snd_conv sum rs ceil_div_eq [OF bs]
    by (rule refl)
  then show ?thesis
    using inside by (simp add: Let_def)
qed

lemma readData_S2: "readData fs_1k fd_S2 zero_memory zero_memory 0 4 65536
    = ([ReadSectors 200 65536 8], Inr ())"
  by (simp add: readData_def readData_eval iteration_events_def fs_1k_def fd_S2_def)

lemma cache_size_5000: "cache_size 5000 = 8192"
  by (simp add: cache_size_def)

text \<open>
  Claim C5, witness: scenario S2 of the specification, a file of 5000 bytes and the manage
  event (0, 4096): one read of 8 sectors at sector 200, then the load is completed over
  (0, 4096).
\<close>

theorem manageFileData_event_spec_witness:
  "init sb_1k = Inr fs_1k \<and> unat (logBlockSize sb_1k) \<le> 6
   \<and> (5000::nat) < 2 ^ 32 \<and> (4096::nat) mod pageSize = 0 \<and> 0 + 4096 \<le> cache_size 5000
   \<and> manageFileData_event fs_1k fd_S2 5000 zero_memory zero_memory 65536 (0, 4096)
       = ([MapMemory backingMemory 0 4096, ReadSectors 200 65536 8,
           CompleteLoad backingMemory 0 4096, UnmapMemory 65536 4096], Inr ())"
proof -
  have l: "unat (logBlockSize sb_1k) \<le> 6" by (simp add: sb_1k_def)
  have f: "(5000::nat) < 2 ^ 32" by simp
  have s: "(4096::nat) mod pageSize = 0" by (simp add: pageSize_def pageShift_def)
  have c: "0 + 4096 \<le> cache_size 5000" by (simp add: cache_size_5000)
  have "manageFileData_event fs_1k fd_S2 5000 zero_memory zero_memory 65536 (0, 4096)
       = ([MapMemory backingMemory 0 4096, ReadSectors 200 65536 8,
           CompleteLoad backingMemory 0 4096, UnmapMemory 65536 4096], Inr ())"
    using manageFileData_event_spec [OF init_sb_1k l f s c, of fd_S2 zero_memory zero_memory 65536]
    by (simp add: fs_1k_eval ceil_div_def readData_S2)
  then show ?thesis using init_sb_1k l s c by simp
qed

subsection \<open>The order-2 indirect handler\<close>

lemma order2_size_eq:
  assumes i: "init sb = Inr fs"
  shows "order2_size fs = per_indirect fs * slot_size fs"
  by (simp add: order2_size_def per_indirect_def slot_size_def push_bit_eq_mult)

lemma init_per_indirect_le:
  assumes i: "init sb = Inr fs" and l: "unat (logBlockSize sb) \<le> 6"
  shows "per_indirect fs \<le> 2 ^ 14"
proof -
  have "blockShift fs - 2 \<le> 14"
    using init_blockShift [OF i] l by simp
  then have "(2::nat) ^ (blockShift fs - 2) \<le> 2 ^ 14"
    by (rule power_increasing) simp
  then show ?thesis by (simp add: init_per_indirect [OF i])
qed

lemma element_bound:
  assumes i: "init sb = Inr fs" and l: "unat (logBlockSize sb) \<le> 6"
    and inside: "offset < order2_size fs"
  shows "drop_bit (blockPagesShift fs) offset mod 2 ^ 32 = offset div slot_size fs"
    and "offset div slot_size fs < per_indirect fs"
proof -
  have "offset < per_indirect fs * slot_size fs"
    using inside order2_size_eq [OF i] by simp
  then show lt: "offset div slot_size fs < per_indirect fs"
    by (simp add: less_mult_imp_div_less)
  have "drop_bit (blockPagesShift fs) offset = offset div slot_size fs"
    by (simp add: drop_bit_eq_div slot_size_def)
  moreover have "offset div slot_size fs < 2 ^ 32"
    using lt init_per_indirect_le [OF i l] by simp
  ultimately show "drop_bit (blockPagesShift fs) offset mod 2 ^ 32 = offset div slot_size fs"
    by simp
qed

lemma manageIndirect_order2:
  assumes i: "init sb = Inr fs" and l: "unat (logBlockSize sb) \<le> 6"
    and inside: "offset < order2_size fs"
  shows "manageIndirect_event w fs fd mem1 2 memory out (offset, len) =
    (let element = offset div slot_size fs;
         first_level = element div per_indirect fs;
         within_first = element mod per_indirect fs;
         block = mapped_u32 mem1 ((1 + first_level) * slot_size fs) within_first;
         locks = [LockMemory indirectOrder1 ((1 + first_level) * slot_size fs) (slot_size fs),
                  MapMemory indirectOrder1 ((1 + first_level) * slot_size fs) (slot_size fs)]
     in if offset mod slot_size fs = 0 \<and> len = slot_size fs
        then (locks @ [MapMemory memory offset len,
                ReadSectors ((unat block * sectorsPerBlock fs) mod 2 ^ w) out (sectorsPerBlock fs),
                CompleteLoad memory offset len], Inr ())
        else (locks, Inl AlignmentViolation))"
proof -
  have fl: "offset div slot_size fs div per_indirect fs = 0"
    using element_bound(2) [OF i l inside] by simp
  have "blockPagesShift fs \<le> 16"
    using init_blockPagesShift [OF i] init_blockShift [OF i] l by simp
  then have "(2::nat) ^ blockPagesShift fs \<le> 2 ^ 16"
    by (rule power_increasing) simp
  then have small: "slot_size fs < 2 ^ 32"
    by (simp add: slot_size_def)
  have lk: "push_bit (blockPagesShift fs) (1 + offset div slot_size fs div per_indirect fs)
      mod 2 ^ 32 = (1 + offset div slot_size fs div per_indirect fs) * slot_size fs"
    unfolding fl using small by (simp add: push_bit_eq_mult slot_size_def)
  show ?thesis
    unfolding manageIndirect_event_def Let_def fst_conv snd_conv
      element_bound(1) [OF i l inside]
    unfolding mask_eq_mod drop_bit_eq_div init_per_indirect [OF i, symmetric]
    unfolding lk
    by (simp add: slot_size_def push_bit_eq_mult mult.commute)
qed

text \<open>
  For every manage event \<open>(offset, len)\<close> inside the order-2 memory object the order-2
  handler locks and maps one slot of \<^verbatim>\<open>indirectOrder1\<close> at offset
  \<open>(1 + first_level) * slot_size\<close>, takes the 32-bit entry \<open>within_first\<close> of it as the
  disk block, and, behind its two alignment assertions, issues exactly one read of
  \<open>sectorsPerBlock\<close> sectors before it completes the load. The read starts at
  \<open>block * sectorsPerBlock\<close> where that product fits the width \<open>w\<close> in which the source
  forms it.
\<close>

lemma manageIndirect_order2_fits:
  assumes i: "init sb = Inr fs" and l: "unat (logBlockSize sb) \<le> 6"
    and inside: "offset < order2_size fs"
    and element: "element = drop_bit (blockPagesShift fs) offset"
    and first_level: "first_level = drop_bit (blockShift fs - 2) element"
    and within_first: "within_first = element AND (push_bit (blockShift fs - 2) 1 - 1)"
    and block: "block = mapped_u32 mem1 ((1 + first_level) * slot_size fs) within_first"
    and fits: "unat block * sectorsPerBlock fs < 2 ^ w"
  shows "manageIndirect_event w fs fd mem1 2 memory out (offset, len) =
    (if offset mod slot_size fs = 0 \<and> len = slot_size fs
     then ([LockMemory indirectOrder1 ((1 + first_level) * slot_size fs) (slot_size fs),
            MapMemory indirectOrder1 ((1 + first_level) * slot_size fs) (slot_size fs),
            MapMemory memory offset len,
            ReadSectors (unat block * sectorsPerBlock fs) out (sectorsPerBlock fs),
            CompleteLoad memory offset len], Inr ())
     else ([LockMemory indirectOrder1 ((1 + first_level) * slot_size fs) (slot_size fs),
            MapMemory indirectOrder1 ((1 + first_level) * slot_size fs) (slot_size fs)],
           Inl AlignmentViolation))"
proof -
  have e: "element = offset div slot_size fs"
    by (simp add: element drop_bit_eq_div slot_size_def)
  have f: "first_level = element div per_indirect fs"
    by (simp add: first_level drop_bit_eq_div init_per_indirect [OF i])
  have w: "within_first = element mod per_indirect fs"
    by (simp add: within_first mask_eq_mod' init_per_indirect [OF i])
  have m: "(unat block * sectorsPerBlock fs) mod 2 ^ w = unat block * sectorsPerBlock fs"
    using fits by simp
  show ?thesis
    unfolding manageIndirect_order2 [OF i l inside] Let_def e [symmetric]
    unfolding f [symmetric] w [symmetric]
    unfolding block [symmetric] m
    by simp
qed

text \<open>
  Claim C10. The order-2 memory object has \<open>blockSize div 4\<close> slots, so every manage event
  inside it has \<open>element < blockSize div 4 = 2 ^ (blockShift - 2)\<close>, hence
  \<open>first_level = 0\<close>: the only lock of the order-2 handler is the one of slot 1 of
  \<^verbatim>\<open>indirectOrder1\<close>, and slots 2 and 3 are never locked by it.
\<close>

theorem order2_handler_locks_slot_1:
  assumes i: "init sb = Inr fs" and l: "unat (logBlockSize sb) \<le> 6"
    and inside: "offset < order2_size fs"
  shows "order2_size fs = (blockSize fs div 4) * slot_size fs
    \<and> blockSize fs div 4 = 2 ^ (blockShift fs - 2)
    \<and> drop_bit (blockPagesShift fs) offset mod 2 ^ 32 < blockSize fs div 4
    \<and> drop_bit (blockShift fs - 2) (drop_bit (blockPagesShift fs) offset mod 2 ^ 32) = 0
    \<and> filter is_lock (fst (manageIndirect_event w fs fd mem1 2 memory out (offset, len)))
        = [LockMemory indirectOrder1 (slot_size fs) (slot_size fs)]
    \<and> LockMemory indirectOrder1 (2 * slot_size fs) (slot_size fs)
        \<notin> set (fst (manageIndirect_event w fs fd mem1 2 memory out (offset, len)))
    \<and> LockMemory indirectOrder1 (3 * slot_size fs) (slot_size fs)
        \<notin> set (fst (manageIndirect_event w fs fd mem1 2 memory out (offset, len)))"
proof -
  note eb = element_bound [OF i l inside]
  have per: "per_indirect fs = 2 ^ (blockShift fs - 2)" by (rule init_per_indirect [OF i])
  have fl: "(offset div slot_size fs) div per_indirect fs = 0"
    using eb(2) by simp
  have pos: "0 < slot_size fs" by (simp add: slot_size_def)
  have a: "order2_size fs = (blockSize fs div 4) * slot_size fs"
    using order2_size_eq [OF i] by (simp add: per_indirect_def)
  have b: "blockSize fs div 4 = 2 ^ (blockShift fs - 2)"
    using per by (simp add: per_indirect_def)
  have c: "drop_bit (blockPagesShift fs) offset mod 2 ^ 32 < blockSize fs div 4"
    unfolding eb(1) using eb(2) by (simp add: per_indirect_def)
  have d: "drop_bit (blockShift fs - 2) (drop_bit (blockPagesShift fs) offset mod 2 ^ 32) = 0"
    unfolding eb(1) using fl by (simp add: drop_bit_eq_div per)
  have e: "fst (manageIndirect_event w fs fd mem1 2 memory out (offset, len)) =
    [LockMemory indirectOrder1 (slot_size fs) (slot_size fs),
     MapMemory indirectOrder1 (slot_size fs) (slot_size fs)] @
    (if offset mod slot_size fs = 0 \<and> len = slot_size fs
     then [MapMemory memory offset len,
           ReadSectors ((unat (mapped_u32 mem1 (slot_size fs)
               ((offset div slot_size fs) mod per_indirect fs)) * sectorsPerBlock fs) mod 2 ^ w)
             out (sectorsPerBlock fs),
           CompleteLoad memory offset len]
     else [])"
    by (simp add: manageIndirect_order2 [OF i l inside] Let_def fl)
  have f: "filter is_lock (fst (manageIndirect_event w fs fd mem1 2 memory out (offset, len)))
        = [LockMemory indirectOrder1 (slot_size fs) (slot_size fs)]"
    by (simp add: e is_lock_def)
  have g: "LockMemory indirectOrder1 (2 * slot_size fs) (slot_size fs)
        \<notin> set (fst (manageIndirect_event w fs fd mem1 2 memory out (offset, len)))"
    and h: "LockMemory indirectOrder1 (3 * slot_size fs) (slot_size fs)
        \<notin> set (fst (manageIndirect_event w fs fd mem1 2 memory out (offset, len)))"
    using pos by (simp_all add: e)
  show ?thesis
    by (intro conjI a b c d f g h)
qed

lemma order2_size_1k: "order2_size fs_1k = 1048576"
  by (simp add: order2_size_def fs_1k_def)

lemma block_S6: "mapped_u32 mem1_S6 4096 3 = 300"
  by (simp add: mapped_u32_def mem1_S6_def word_rcat_def)

text \<open>
  1024-byte blocks, the manage event (12288, 4096): element 3, first level 0, entry 3 of the
  slot at offset 4096 holds block 300, read at sector 600.
\<close>

lemma manageIndirect_order2_fits_example:
  "init sb_1k = Inr fs_1k \<and> unat (logBlockSize sb_1k) \<le> 6
   \<and> 12288 < order2_size fs_1k
   \<and> (3::nat) = drop_bit (blockPagesShift fs_1k) 12288
   \<and> (0::nat) = drop_bit (blockShift fs_1k - 2) 3
   \<and> (3::nat) = 3 AND (push_bit (blockShift fs_1k - 2) 1 - 1)
   \<and> (300::u32) = mapped_u32 mem1_S6 ((1 + 0) * slot_size fs_1k) 3
   \<and> unat (300::u32) * sectorsPerBlock fs_1k < 2 ^ 32
   \<and> manageIndirect_event 32 fs_1k fd_S2 mem1_S6 2 backingOrder2 131072 (12288, 4096)
       = ([LockMemory indirectOrder1 4096 4096, MapMemory indirectOrder1 4096 4096,
           MapMemory backingOrder2 12288 4096, ReadSectors 600 131072 2,
           CompleteLoad backingOrder2 12288 4096], Inr ())"
proof -
  have l: "unat (logBlockSize sb_1k) \<le> 6" by (simp add: sb_1k_def)
  have inside: "12288 < order2_size fs_1k" by (simp add: order2_size_1k)
  have e: "(3::nat) = drop_bit (blockPagesShift fs_1k) 12288"
    by (simp add: fs_1k_def drop_bit_eq_div)
  have f: "(0::nat) = drop_bit (blockShift fs_1k - 2) 3"
    by (simp add: fs_1k_def drop_bit_eq_div)
  have w: "(3::nat) = 3 AND (push_bit (blockShift fs_1k - 2) 1 - 1)"
    by (simp add: fs_1k_def mask_eq_mod)
  have b: "(300::u32) = mapped_u32 mem1_S6 ((1 + 0) * slot_size fs_1k) 3"
    by (simp add: fs_1k_eval block_S6)
  have fits: "unat (300::u32) * sectorsPerBlock fs_1k < 2 ^ 32"
    by (simp add: fs_1k_eval)
  have "manageIndirect_event 32 fs_1k fd_S2 mem1_S6 2 backingOrder2 131072 (12288, 4096)
       = ([LockMemory indirectOrder1 4096 4096, MapMemory indirectOrder1 4096 4096,
           MapMemory backingOrder2 12288 4096, ReadSectors 600 131072 2,
           CompleteLoad backingOrder2 12288 4096], Inr ())"
    using manageIndirect_order2_fits [OF init_sb_1k l inside e f w b fits, of fd_S2 backingOrder2
        131072 4096]
    by (simp add: fs_1k_eval)
  then show ?thesis
    using init_sb_1k l inside e f w b fits by simp
qed

lemma block_high: "mapped_u32 mem1_high 4096 3 = 0x80000001"
  by (simp add: mapped_u32_def mem1_high_def word_rcat_def)

text \<open>
  Claim C6 fails in the code where the product \<^verbatim>\<open>block * sectorsPerBlock\<close> is formed in 32
  bits: on 1024-byte blocks, for the manage event (12288, 4096) inside the order-2 object
  and block number \<open>2^31 + 1\<close> in entry 3 of slot 1 of \<^verbatim>\<open>indirectOrder1\<close>, the handler
  locks and maps the slot the claim names and issues one read of two sectors, but at
  sector 2 and not at sector \<open>(2^31 + 1) * 2 = 4294967298\<close>. \<^verbatim>\<open>readData\<close> forms the same
  product in \<^verbatim>\<open>size_t\<close>.
\<close>

theorem manageIndirect_sector_wraps:
  "init sb_1k = Inr fs_1k
   \<and> 12288 < order2_size fs_1k
   \<and> mapped_u32 mem1_high ((1 + 0) * slot_size fs_1k) 3 = 0x80000001
   \<and> unat (0x80000001 :: u32) * sectorsPerBlock fs_1k = 4294967298
   \<and> manageIndirect_event 32 fs_1k fd_S2 mem1_high 2 backingOrder2 131072 (12288, 4096)
       = ([LockMemory indirectOrder1 4096 4096, MapMemory indirectOrder1 4096 4096,
           MapMemory backingOrder2 12288 4096, ReadSectors 2 131072 2,
           CompleteLoad backingOrder2 12288 4096], Inr ())"
proof -
  have l: "unat (logBlockSize sb_1k) \<le> 6" by (simp add: sb_1k_def)
  have inside: "12288 < order2_size fs_1k" by (simp add: order2_size_1k)
  have "manageIndirect_event 32 fs_1k fd_S2 mem1_high 2 backingOrder2 131072 (12288, 4096)
       = ([LockMemory indirectOrder1 4096 4096, MapMemory indirectOrder1 4096 4096,
           MapMemory backingOrder2 12288 4096, ReadSectors 2 131072 2,
           CompleteLoad backingOrder2 12288 4096], Inr ())"
    by (simp add: manageIndirect_order2 [OF init_sb_1k l inside] Let_def fs_1k_eval block_high)
  then show ?thesis
    using init_sb_1k inside by (simp add: fs_1k_eval block_high)
qed

text \<open>
  Claim C10, witness: 1024-byte blocks, 256 slots of 4096 bytes, the manage event
  (12288, 4096).
\<close>

theorem order2_handler_locks_slot_1_witness:
  "init sb_1k = Inr fs_1k \<and> unat (logBlockSize sb_1k) \<le> 6
   \<and> 12288 < order2_size fs_1k
   \<and> order2_size fs_1k = 256 * 4096
   \<and> drop_bit (blockPagesShift fs_1k) 12288 mod 2 ^ 32 < blockSize fs_1k div 4
   \<and> drop_bit (blockShift fs_1k - 2) (drop_bit (blockPagesShift fs_1k) 12288 mod 2 ^ 32)
       = (0::nat)
   \<and> filter is_lock
         (fst (manageIndirect_event 32 fs_1k fd_S2 mem1_S6 2 backingOrder2 131072 (12288, 4096)))
       = [LockMemory indirectOrder1 4096 4096]
   \<and> LockMemory indirectOrder1 8192 4096
       \<notin> set (fst (manageIndirect_event 32 fs_1k fd_S2 mem1_S6 2 backingOrder2 131072
                  (12288, 4096)))
   \<and> LockMemory indirectOrder1 12288 4096
       \<notin> set (fst (manageIndirect_event 32 fs_1k fd_S2 mem1_S6 2 backingOrder2 131072
                  (12288, 4096)))"
proof -
  have l: "unat (logBlockSize sb_1k) \<le> 6" by (simp add: sb_1k_def)
  have inside: "12288 < order2_size fs_1k" by (simp add: order2_size_1k)
  note t = order2_handler_locks_slot_1 [OF init_sb_1k l inside, of 32 fd_S2 mem1_S6
      backingOrder2 131072 4096]
  have a: "order2_size fs_1k = 256 * 4096" by (simp add: order2_size_1k)
  show ?thesis
    using t init_sb_1k l inside a by (simp add: fs_1k_eval)
qed

subsection \<open>The order of initiateInode\<close>

lemma initiateInode_ok:
  assumes ok: "snd (initiateInode fs bgdt disk handles inode) = Inr ()"
  shows "initiateInode fs bgdt disk handles inode =
    (let block_group = (unat (number inode - 1) div inodesPerGroup fs) mod 2 ^ 32;
         index = (unat (number inode - 1) mod inodesPerGroup fs) mod 2 ^ 32;
         offset = (index * inodeSize fs) mod 2 ^ 32;
         sector = (unat (bgdt block_group) * sectorsPerBlock fs + offset div 512) mod 2 ^ 32;
         disk_inode = disk sector (offset mod 512);
         fmt = di_mode disk_inode AND EXT2_S_IFMT;
         ino1 = inode
                \<lparr> fileType := (if fmt = EXT2_S_IFREG then kTypeRegular
                                else if fmt = EXT2_S_IFLNK then kTypeSymlink
                                else kTypeDirectory),
                  fileSize := unat (di_size disk_inode),
                  fileData := di_data disk_inode,
                  mode := di_mode disk_inode AND 0x0FFF,
                  numLinks := unat (di_linksCount disk_inode),
                  uid := unat (di_uid disk_inode),
                  gid := unat (di_gid disk_inode),
                  accessTime := (unat (di_atime disk_inode), 0),
                  dataModifyTime := (unat (di_mtime disk_inode), 0),
                  anyChangeTime := (unat (di_ctime disk_inode), 0) \<rparr>;
         ino2 = ino1 \<lparr> ino_backingMemory := Some (fst (handles 0)),
                       ino_frontalMemory := Some (snd (handles 0)) \<rparr>;
         ino3 = ino2 \<lparr> isReady := True \<rparr>;
         ino4 = ino3 \<lparr> ino_indirectOrder1 := Some (snd (handles 1)),
                       ino_indirectOrder2 := Some (snd (handles 2)) \<rparr>
     in ([(ReadInodeSector sector 1, inode),
          (CreateManagedMemory (cache_size (fileSize ino1)), ino2),
          (TriggerReadyJump, ino3),
          (CreateManagedMemory (order1_size fs), ino3),
          (CreateManagedMemory (order2_size fs), ino3),
          (StartManageIndirect 1 (fst (handles 1)), ino4),
          (StartManageIndirect 2 (fst (handles 2)), ino4),
          (StartManageFileData, ino4)], Inr ()))"
proof -
  have g: "inodesPerGroup fs \<noteq> 0"
    using ok by (auto simp: initiateInode_def split: if_splits)
  let ?block_group = "(unat (number inode - 1) div inodesPerGroup fs) mod 2 ^ 32"
  let ?index = "(unat (number inode - 1) mod inodesPerGroup fs) mod 2 ^ 32"
  let ?offset = "(?index * inodeSize fs) mod 2 ^ 32"
  let ?sector = "(unat (bgdt ?block_group) * sectorsPerBlock fs + ?offset div 512) mod 2 ^ 32"
  let ?fmt = "di_mode (disk ?sector (?offset mod 512)) AND EXT2_S_IFMT"
  have f: "\<not> (?fmt \<noteq> EXT2_S_IFREG \<and> ?fmt \<noteq> EXT2_S_IFLNK \<and> ?fmt \<noteq> EXT2_S_IFDIR)"
  proof
    assume "?fmt \<noteq> EXT2_S_IFREG \<and> ?fmt \<noteq> EXT2_S_IFLNK \<and> ?fmt \<noteq> EXT2_S_IFDIR"
    then have "snd (initiateInode fs bgdt disk handles inode) = Inl UnsupportedInodeType"
      unfolding initiateInode_def Let_def using g by (simp only: if_False if_True snd_conv simp_thms)
    with ok show False by simp
  qed
  show ?thesis
    unfolding initiateInode_def Let_def using g f by (simp only: if_False simp_thms)
qed

text \<open>
  Claim C4, amended. For every newly initiated inode record that \<^verbatim>\<open>initiateInode\<close> does not
  abort on, the file-data pair is created and its two handles are stored before
  \<^verbatim>\<open>isReady\<close> is raised and \<^verbatim>\<open>readyJump\<close> is triggered; the order-1 and order-2 pairs are
  created after the trigger, and their frontal handles are stored before the first
  page-in handler is started.
\<close>

theorem initiateInode_order:
  assumes ok: "snd (initiateInode fs bgdt disk handles (new_Inode n)) = Inr ()"
  shows "\<exists>sector ino2 ino3 ino4.
     fst (initiateInode fs bgdt disk handles (new_Inode n)) =
       [(ReadInodeSector sector 1, new_Inode n),
        (CreateManagedMemory (cache_size (fileSize ino2)), ino2),
        (TriggerReadyJump, ino3),
        (CreateManagedMemory (order1_size fs), ino3),
        (CreateManagedMemory (order2_size fs), ino3),
        (StartManageIndirect 1 (fst (handles 1)), ino4),
        (StartManageIndirect 2 (fst (handles 2)), ino4),
        (StartManageFileData, ino4)]
     \<and> \<not> isReady ino2
     \<and> ino_backingMemory ino2 = Some (fst (handles 0))
     \<and> ino_frontalMemory ino2 = Some (snd (handles 0))
     \<and> isReady ino3
     \<and> ino_backingMemory ino3 = Some (fst (handles 0))
     \<and> ino_frontalMemory ino3 = Some (snd (handles 0))
     \<and> ino_indirectOrder1 ino3 = None \<and> ino_indirectOrder2 ino3 = None
     \<and> isReady ino4
     \<and> ino_backingMemory ino4 = Some (fst (handles 0))
     \<and> ino_frontalMemory ino4 = Some (snd (handles 0))
     \<and> ino_indirectOrder1 ino4 = Some (snd (handles 1))
     \<and> ino_indirectOrder2 ino4 = Some (snd (handles 2))"
proof -
  let ?inode = "new_Inode n"
  let ?block_group = "(unat (number ?inode - 1) div inodesPerGroup fs) mod 2 ^ 32"
  let ?index = "(unat (number ?inode - 1) mod inodesPerGroup fs) mod 2 ^ 32"
  let ?offset = "(?index * inodeSize fs) mod 2 ^ 32"
  let ?sector = "(unat (bgdt ?block_group) * sectorsPerBlock fs + ?offset div 512) mod 2 ^ 32"
  let ?disk_inode = "disk ?sector (?offset mod 512)"
  let ?fmt = "di_mode ?disk_inode AND EXT2_S_IFMT"
  define ino1 where "ino1 = ?inode
                \<lparr> fileType := (if ?fmt = EXT2_S_IFREG then kTypeRegular
                                else if ?fmt = EXT2_S_IFLNK then kTypeSymlink
                                else kTypeDirectory),
                  fileSize := unat (di_size ?disk_inode),
                  fileData := di_data ?disk_inode,
                  mode := di_mode ?disk_inode AND 0x0FFF,
                  numLinks := unat (di_linksCount ?disk_inode),
                  uid := unat (di_uid ?disk_inode),
                  gid := unat (di_gid ?disk_inode),
                  accessTime := (unat (di_atime ?disk_inode), 0),
                  dataModifyTime := (unat (di_mtime ?disk_inode), 0),
                  anyChangeTime := (unat (di_ctime ?disk_inode), 0) \<rparr>"
  define ino2 where "ino2 = ino1 \<lparr> ino_backingMemory := Some (fst (handles 0)),
                       ino_frontalMemory := Some (snd (handles 0)) \<rparr>"
  define ino3 where "ino3 = ino2 \<lparr> isReady := True \<rparr>"
  define ino4 where "ino4 = ino3 \<lparr> ino_indirectOrder1 := Some (snd (handles 1)),
                       ino_indirectOrder2 := Some (snd (handles 2)) \<rparr>"
  have e: "fst (initiateInode fs bgdt disk handles ?inode) =
       [(ReadInodeSector ?sector 1, ?inode),
        (CreateManagedMemory (cache_size (fileSize ino1)), ino2),
        (TriggerReadyJump, ino3),
        (CreateManagedMemory (order1_size fs), ino3),
        (CreateManagedMemory (order2_size fs), ino3),
        (StartManageIndirect 1 (fst (handles 1)), ino4),
        (StartManageIndirect 2 (fst (handles 2)), ino4),
        (StartManageFileData, ino4)]"
    unfolding initiateInode_ok [OF ok] Let_def fst_conv ino4_def ino3_def ino2_def ino1_def
    by (rule refl)
  have i1: "\<not> isReady ino1" "ino_indirectOrder1 ino1 = None" "ino_indirectOrder2 ino1 = None"
    by (simp_all add: ino1_def new_Inode_def)
  have i2: "fileSize ino2 = fileSize ino1" "\<not> isReady ino2"
    "ino_backingMemory ino2 = Some (fst (handles 0))"
    "ino_frontalMemory ino2 = Some (snd (handles 0))"
    "ino_indirectOrder1 ino2 = None" "ino_indirectOrder2 ino2 = None"
    using i1 by (simp_all add: ino2_def)
  have i3: "isReady ino3"
    "ino_backingMemory ino3 = Some (fst (handles 0))"
    "ino_frontalMemory ino3 = Some (snd (handles 0))"
    "ino_indirectOrder1 ino3 = None" "ino_indirectOrder2 ino3 = None"
    using i2 by (simp_all add: ino3_def)
  have i4: "isReady ino4"
    "ino_backingMemory ino4 = Some (fst (handles 0))"
    "ino_frontalMemory ino4 = Some (snd (handles 0))"
    "ino_indirectOrder1 ino4 = Some (snd (handles 1))"
    "ino_indirectOrder2 ino4 = Some (snd (handles 2))"
    using i3 by (simp_all add: ino4_def)
  show ?thesis
    unfolding e
    by (rule exI [of _ ?sector], rule exI [of _ ino2], rule exI [of _ ino3],
        rule exI [of _ ino4]) (simp add: i2 i3 i4)
qed

lemma initiateInode_S2:
  "map fst (fst (initiateInode fs_1k bgdt_S2 disk_S2 handles_S2 (new_Inode 12)))
     = [ReadInodeSector 12 1, CreateManagedMemory 8192, TriggerReadyJump,
        CreateManagedMemory 12288, CreateManagedMemory 1048576,
        StartManageIndirect 1 22, StartManageIndirect 2 24, StartManageFileData]"
  "snd (initiateInode fs_1k bgdt_S2 disk_S2 handles_S2 (new_Inode 12)) = Inr ()"
  "isReady (snd (fst (initiateInode fs_1k bgdt_S2 disk_S2 handles_S2 (new_Inode 12)) ! 2))"
  "ino_indirectOrder1
     (snd (fst (initiateInode fs_1k bgdt_S2 disk_S2 handles_S2 (new_Inode 12)) ! 2)) = None"
  "ino_indirectOrder2
     (snd (fst (initiateInode fs_1k bgdt_S2 disk_S2 handles_S2 (new_Inode 12)) ! 2)) = None"
  by (simp_all add: initiateInode_def Let_def new_Inode_def fs_1k_def bgdt_S2_def disk_S2_def
      handles_S2_def cache_size_def order1_size_def order2_size_def
      EXT2_S_IFMT_def EXT2_S_IFREG_def EXT2_S_IFLNK_def EXT2_S_IFDIR_def)

text \<open>
  Claim C4 as stated fails: for inode 12 of scenario S2 the trigger is the third action,
  the two indirect pairs are created by the fourth and the fifth, and at the trigger the
  record is ready while its two indirect handles are not yet stored.
\<close>

theorem initiateInode_ready_before_indirect_counterexample:
  "map fst (fst (initiateInode fs_1k bgdt_S2 disk_S2 handles_S2 (new_Inode 12)))
     = [ReadInodeSector 12 1, CreateManagedMemory 8192, TriggerReadyJump,
        CreateManagedMemory 12288, CreateManagedMemory 1048576,
        StartManageIndirect 1 22, StartManageIndirect 2 24, StartManageFileData]
   \<and> isReady (snd (fst (initiateInode fs_1k bgdt_S2 disk_S2 handles_S2 (new_Inode 12)) ! 2))
   \<and> ino_indirectOrder1
       (snd (fst (initiateInode fs_1k bgdt_S2 disk_S2 handles_S2 (new_Inode 12)) ! 2)) = None
   \<and> ino_indirectOrder2
       (snd (fst (initiateInode fs_1k bgdt_S2 disk_S2 handles_S2 (new_Inode 12)) ! 2)) = None"
  by (simp add: initiateInode_S2)

text \<open>
  Claim C4, witness: inode 12 of scenario S2, a regular file of 5000 bytes.
\<close>

theorem initiateInode_order_witness:
  "snd (initiateInode fs_1k bgdt_S2 disk_S2 handles_S2 (new_Inode 12)) = Inr ()
   \<and> length (fst (initiateInode fs_1k bgdt_S2 disk_S2 handles_S2 (new_Inode 12))) = 8
   \<and> fst (fst (initiateInode fs_1k bgdt_S2 disk_S2 handles_S2 (new_Inode 12)) ! 1)
       = CreateManagedMemory 8192
   \<and> fst (fst (initiateInode fs_1k bgdt_S2 disk_S2 handles_S2 (new_Inode 12)) ! 2)
       = TriggerReadyJump
   \<and> ino_frontalMemory
       (snd (fst (initiateInode fs_1k bgdt_S2 disk_S2 handles_S2 (new_Inode 12)) ! 2)) = Some 21
   \<and> fst (fst (initiateInode fs_1k bgdt_S2 disk_S2 handles_S2 (new_Inode 12)) ! 3)
       = CreateManagedMemory (order1_size fs_1k)
   \<and> fst (fst (initiateInode fs_1k bgdt_S2 disk_S2 handles_S2 (new_Inode 12)) ! 4)
       = CreateManagedMemory (order2_size fs_1k)
   \<and> ino_indirectOrder1
       (snd (fst (initiateInode fs_1k bgdt_S2 disk_S2 handles_S2 (new_Inode 12)) ! 5)) = Some 23
   \<and> ino_indirectOrder2
       (snd (fst (initiateInode fs_1k bgdt_S2 disk_S2 handles_S2 (new_Inode 12)) ! 5)) = Some 25"
proof -
  have ok: "snd (initiateInode fs_1k bgdt_S2 disk_S2 handles_S2 (new_Inode 12)) = Inr ()"
    by (rule initiateInode_S2(2))
  from initiateInode_order [OF ok] obtain sector ino2 ino3 ino4 where
    t: "fst (initiateInode fs_1k bgdt_S2 disk_S2 handles_S2 (new_Inode 12)) =
       [(ReadInodeSector sector 1, new_Inode 12),
        (CreateManagedMemory (cache_size (fileSize ino2)), ino2),
        (TriggerReadyJump, ino3),
        (CreateManagedMemory (order1_size fs_1k), ino3),
        (CreateManagedMemory (order2_size fs_1k), ino3),
        (StartManageIndirect 1 (fst (handles_S2 1)), ino4),
        (StartManageIndirect 2 (fst (handles_S2 2)), ino4),
        (StartManageFileData, ino4)]"
    and f': "ino_frontalMemory ino3 = Some (snd (handles_S2 0))"
    and o': "ino_indirectOrder1 ino4 = Some (snd (handles_S2 1))"
      "ino_indirectOrder2 ino4 = Some (snd (handles_S2 2))"
    by blast
  have f: "ino_frontalMemory ino3 = Some 21"
    and o: "ino_indirectOrder1 ino4 = Some 23" "ino_indirectOrder2 ino4 = Some 25"
    using f' o' by (simp_all add: handles_S2_def)
  have c: "fst (fst (initiateInode fs_1k bgdt_S2 disk_S2 handles_S2 (new_Inode 12)) ! 1)
       = CreateManagedMemory 8192"
    using initiateInode_S2(1) [THEN arg_cong, of "\<lambda>xs. xs ! 1"] by (simp add: t)
  show ?thesis
    using ok c f o by (simp add: t)
qed

subsection \<open>The directory reader\<close>

lemma strncmp_eq_no_nul:
  "(\<forall>i<n. s1 i \<noteq> 0) \<or> (\<forall>i<n. s2 i \<noteq> 0) \<Longrightarrow>
   strncmp_eq s1 s2 n \<longleftrightarrow> (\<forall>i<n. s1 i = s2 i)"
proof (induction n arbitrary: s1 s2)
  case 0
  show ?case by simp
next
  case (Suc n)
  have nz: "s1 0 = s2 0 \<Longrightarrow> s1 0 \<noteq> 0"
    using Suc.prems by auto
  have tl: "(\<forall>i<n. s1 (Suc i) \<noteq> 0) \<or> (\<forall>i<n. s2 (Suc i) \<noteq> 0)"
    using Suc.prems by auto
  have "(\<forall>i<Suc n. s1 i = s2 i) \<longleftrightarrow> s1 0 = s2 0 \<and> (\<forall>i<n. s1 (Suc i) = s2 (Suc i))"
    by (auto simp: less_Suc_eq_0_disj)
  then show ?case
    using nz Suc.IH [OF tl] by auto
qed

lemma code_matches_name_matches:
  assumes "0 \<notin> set name \<or> 0 \<notin> set (stored_name window off)"
  shows "code_matches window name off \<longleftrightarrow> name_matches window name off"
proof (cases "length name = entry_nameLength window off")
  case False
  then show ?thesis
    by (auto simp: code_matches_def name_matches_def stored_name_def)
next
  case True
  let ?n = "entry_nameLength window off"
  have "(\<forall>i<?n. entry_name window off i \<noteq> 0) \<or> (\<forall>i<?n. c_str name i \<noteq> 0)"
    using assms True
    by (auto simp: stored_name_def c_str_def in_set_conv_nth)
  then have "strncmp_eq (entry_name window off) (c_str name) ?n
      \<longleftrightarrow> (\<forall>i<?n. entry_name window off i = c_str name i)"
    by (rule strncmp_eq_no_nul)
  also have "\<dots> \<longleftrightarrow> stored_name window off = name"
    using True by (auto simp: stored_name_def c_str_def list_eq_iff_nth_eq)
  finally show ?thesis
    using True by (simp add: code_matches_def name_matches_def)
qed

lemma result_entry_eq:
  "\<lparr> de_inode = entry_inode window off, de_fileType = entry_type (entry_fileType window off) \<rparr>
    = result_entry window off"
  by (simp add: result_entry_def entry_type_def)

lemma findEntry_loop_walk:
  "dir_entries window fsize off = Some offs \<Longrightarrow>
   findEntry_loop window fsize name off =
     Some (case find (code_matches window name) offs of
             None \<Rightarrow> (fsize, None)
           | Some m \<Rightarrow> (m, Some (result_entry window m)))"
proof (induction window fsize off arbitrary: offs rule: dir_entries.induct)
  case (1 window fsize off)
  show ?case
  proof (cases "off = fsize")
    case True
    with "1.prems" have "offs = []"
      by (subst (asm) dir_entries.simps) simp
    with True show ?thesis
      by (subst findEntry_loop.simps) simp
  next
    case False
    let ?next = "off + entry_recordLength window off"
    from "1.prems" False have c: "off < fsize"
      "8 + entry_nameLength window off \<le> entry_recordLength window off"
      "off + entry_recordLength window off \<le> fsize"
      by (subst (asm) dir_entries.simps; simp split: if_splits)+
    from "1.prems" False c obtain rest where rest: "dir_entries window fsize ?next = Some rest"
      and offs: "offs = off # rest"
      by (subst (asm) dir_entries.simps) (auto split: option.splits)
    have ih: "findEntry_loop window fsize name ?next =
        Some (case find (code_matches window name) rest of
                None \<Rightarrow> (fsize, None)
              | Some m \<Rightarrow> (m, Some (result_entry window m)))"
      using "1.IH" [OF False _ rest] c by simp
    show ?thesis
      using c ih
      by (subst findEntry_loop.simps)
        (simp add: offs code_matches_def [symmetric] result_entry_eq)
  qed
qed

lemma find_cong_set: "(\<And>x. x \<in> set xs \<Longrightarrow> P x = Q x) \<Longrightarrow> find P xs = find Q xs"
  by (induction xs) auto

text \<open>
  On names free of NUL bytes \<^verbatim>\<open>strncmp\<close> is the comparison of the bytes. For every
  well-formed directory and every name that is not empty, not \<^verbatim>\<open>"."\<close> and not \<^verbatim>\<open>".."\<close>, where
  the name or else every entry name of the directory is free of NUL bytes, \<^verbatim>\<open>findEntry\<close>
  returns: the entry of the first walked record whose name length and name bytes match,
  with the inode number of that record and its file type byte mapped (regular, directory,
  symlink, otherwise none); or, if no record matches, absent, the walk having ended at the
  offset equal to the file size.
\<close>

lemma findEntry_first_match:
  assumes wf: "well_formed_dir window fsize"
    and name: "name \<noteq> []" "name \<noteq> [46]" "name \<noteq> [46, 46]"
    and nul: "0 \<notin> set name
        \<or> (\<forall>off\<in>set (dir_offsets window fsize). 0 \<notin> set (stored_name window off))"
  shows "findEntry window fsize name =
      Some ([LockMemory frontalMemory 0 (cache_size fsize),
             MapMemory frontalMemory 0 (cache_size fsize)],
            Inr (map_option (result_entry window)
                   (find (name_matches window name) (dir_offsets window fsize))))
    \<and> (find (name_matches window name) (dir_offsets window fsize) = None
         \<longrightarrow> findEntry_loop window fsize name 0 = Some (fsize, None))"
proof -
  from wf obtain offs where offs: "dir_entries window fsize 0 = Some offs"
    by (auto simp: well_formed_dir_def)
  then have d: "dir_offsets window fsize = offs"
    by (simp add: dir_offsets_def)
  have "find (code_matches window name) offs = find (name_matches window name) offs"
    using nul d by (intro find_cong_set code_matches_name_matches) auto
  with findEntry_loop_walk [OF offs, of name]
  have loop: "findEntry_loop window fsize name 0 =
      Some (case find (name_matches window name) offs of
              None \<Rightarrow> (fsize, None)
            | Some m \<Rightarrow> (m, Some (result_entry window m)))"
    by simp
  show ?thesis
    using name by (simp add: findEntry_def loop d Let_def split: option.splits)
qed

lemmas entry_eval =
  entry_inode_def entry_recordLength_def entry_nameLength_def entry_fileType_def entry_name_def
  bytes_memory_def word_rcat_def

lemma fields_S4:
  "entry_recordLength dir_S4 0 = 12" "entry_nameLength dir_S4 0 = 1"
  "entry_recordLength dir_S4 12 = 12" "entry_nameLength dir_S4 12 = 2"
  "entry_recordLength dir_S4 24 = 16" "entry_nameLength dir_S4 24 = 5"
  "entry_recordLength dir_S4 40 = 984" "entry_nameLength dir_S4 40 = 3"
  by (simp_all add: entry_eval dir_S4_def)

lemma dir_entries_S4: "dir_entries dir_S4 1024 0 = Some [0, 12, 24, 40]"
proof -
  have e: "dir_entries dir_S4 1024 1024 = Some []"
    by (subst dir_entries.simps) simp
  have d: "dir_entries dir_S4 1024 40 = Some [40]"
    by (subst dir_entries.simps) (simp add: e fields_S4)
  have c: "dir_entries dir_S4 1024 24 = Some [24, 40]"
    by (subst dir_entries.simps) (simp add: d fields_S4)
  have b: "dir_entries dir_S4 1024 12 = Some [12, 24, 40]"
    by (subst dir_entries.simps) (simp add: c fields_S4)
  show ?thesis
    by (subst dir_entries.simps) (simp add: b fields_S4)
qed

lemma dir_S4_wf: "well_formed_dir dir_S4 1024" and dir_S4_offsets: "dir_offsets dir_S4 1024 = [0, 12, 24, 40]"
  by (simp_all add: well_formed_dir_def dir_offsets_def dir_entries_S4)

lemma stored_names_S4:
  "stored_name dir_S4 0 = [46]" "stored_name dir_S4 12 = [46, 46]"
  "stored_name dir_S4 24 = [104, 101, 108, 108, 111]" "stored_name dir_S4 40 = [102, 111, 111]"
  by (simp_all add: stored_name_def entry_eval dir_S4_def upt_rec [of _ "numeral _"])

lemma result_entry_S4: "result_entry dir_S4 24 = \<lparr> de_inode = 12, de_fileType = kTypeRegular \<rparr>"
  by (simp add: result_entry_def entry_eval dir_S4_def EXT2_FT_REG_FILE_def)

text \<open>
  Scenario S1 of the specification, the lookup of \<^verbatim>\<open>"hello"\<close> in a directory of 1024
  bytes: the third record matches, inode 12, a regular file.
\<close>

lemma findEntry_first_match_example:
  "well_formed_dir dir_S4 1024
   \<and> [104, 101, 108, 108, 111] \<noteq> ([] :: byte list)
   \<and> [104, 101, 108, 108, 111] \<noteq> [46 :: byte]
   \<and> [104, 101, 108, 108, 111] \<noteq> [46, 46 :: byte]
   \<and> (0 :: byte) \<notin> set [104, 101, 108, 108, 111]
   \<and> findEntry dir_S4 1024 [104, 101, 108, 108, 111]
       = Some ([LockMemory frontalMemory 0 4096, MapMemory frontalMemory 0 4096],
               Inr (Some \<lparr> de_inode = 12, de_fileType = kTypeRegular \<rparr>))"
proof -
  have n: "[104, 101, 108, 108, 111] \<noteq> ([] :: byte list)"
    "[104, 101, 108, 108, 111] \<noteq> [46 :: byte]"
    "[104, 101, 108, 108, 111] \<noteq> [46, 46 :: byte]"
    by simp_all
  have z: "(0 :: byte) \<notin> set [104, 101, 108, 108, 111]
      \<or> (\<forall>off\<in>set (dir_offsets dir_S4 1024). 0 \<notin> set (stored_name dir_S4 off))"
    by simp
  have c: "cache_size 1024 = 4096" by (simp add: cache_size_def)
  have "findEntry dir_S4 1024 [104, 101, 108, 108, 111]
       = Some ([LockMemory frontalMemory 0 4096, MapMemory frontalMemory 0 4096],
               Inr (Some \<lparr> de_inode = 12, de_fileType = kTypeRegular \<rparr>))"
    using findEntry_first_match [OF dir_S4_wf n z]
    by (simp add: dir_S4_offsets name_matches_def stored_names_S4 result_entry_S4 c)
  then show ?thesis
    using dir_S4_wf by simp
qed

lemma dir_nul_entries: "dir_entries dir_nul 12 0 = Some [0]"
proof -
  have e: "dir_entries dir_nul 12 12 = Some []"
    by (subst dir_entries.simps) simp
  have f: "entry_recordLength dir_nul 0 = 12" "entry_nameLength dir_nul 0 = 3"
    by (simp_all add: entry_eval dir_nul_def)
  show ?thesis
    by (subst dir_entries.simps) (simp add: e f)
qed

lemma strncmp_eq_3:
  "strncmp_eq s1 s2 3 =
     (if s1 0 \<noteq> s2 0 then False else if s1 0 = 0 then True
      else if s1 1 \<noteq> s2 1 then False else if s1 1 = 0 then True
      else if s1 2 \<noteq> s2 2 then False else True)"
  by (simp add: numeral_3_eq_3 numeral_2_eq_2)

text \<open>
  Claim C7 fails in the code for a name with a NUL byte: \<^verbatim>\<open>findEntry\<close> compares the
  \<^verbatim>\<open>nameLength\<close> bytes of a record with \<^verbatim>\<open>strncmp\<close>, which stops behind a NUL that both
  strings share (the source notes \<^verbatim>\<open>TODO: use memcmp?\<close>). In the well-formed directory whose
  only record has the three name bytes \<open>a\<close>, NUL, \<open>c\<close>, no record has the name of the three
  bytes \<open>a\<close>, NUL, \<open>b\<close>, and the lookup of that name returns the record all the same, where
  the claim has it absent. \<^verbatim>\<open>readEntries\<close> returns all \<^verbatim>\<open>nameLength\<close> bytes of the record
  as its name.
\<close>

theorem findEntry_nul_mismatch:
  "well_formed_dir dir_nul 12
   \<and> [97, 0, 98] \<noteq> ([] :: byte list) \<and> [97, 0, 98] \<noteq> [46 :: byte]
   \<and> [97, 0, 98] \<noteq> [46, 46 :: byte]
   \<and> dir_offsets dir_nul 12 = [0]
   \<and> stored_name dir_nul 0 = [97, 0, 99]
   \<and> find (name_matches dir_nul [97, 0, 98]) (dir_offsets dir_nul 12) = None
   \<and> findEntry dir_nul 12 [97, 0, 98]
       = Some ([LockMemory frontalMemory 0 4096, MapMemory frontalMemory 0 4096],
               Inr (Some \<lparr> de_inode = 5, de_fileType = kTypeRegular \<rparr>))"
proof -
  have wf: "well_formed_dir dir_nul 12" and offs: "dir_offsets dir_nul 12 = [0]"
    by (simp_all add: well_formed_dir_def dir_offsets_def dir_nul_entries)
  have sn: "stored_name dir_nul 0 = [97, 0, 99]"
    by (simp add: stored_name_def entry_eval dir_nul_def upt_rec [of _ "numeral _"])
  have loop: "findEntry_loop dir_nul 12 [97, 0, 98] 0
      = Some (0, Some \<lparr> de_inode = 5, de_fileType = kTypeRegular \<rparr>)"
    by (subst findEntry_loop.simps)
      (simp add: entry_eval dir_nul_def c_str_def strncmp_eq_3 entry_type_def
        EXT2_FT_REG_FILE_def)
  have c: "cache_size 12 = 4096" by (simp add: cache_size_def)
  have f: "findEntry dir_nul 12 [97, 0, 98]
       = Some ([LockMemory frontalMemory 0 4096, MapMemory frontalMemory 0 4096],
               Inr (Some \<lparr> de_inode = 5, de_fileType = kTypeRegular \<rparr>))"
    by (simp add: findEntry_def loop c)
  show ?thesis
    using wf offs sn f by (simp add: name_matches_def)
qed

subsection \<open>Sequential directory reads\<close>

lemma dir_entries_step:
  assumes "dir_entries window fsize off = Some offs" "off \<noteq> fsize"
  shows "off < fsize"
    and "8 + entry_nameLength window off \<le> entry_recordLength window off"
    and "off + entry_recordLength window off \<le> fsize"
    and "\<exists>rest. dir_entries window fsize (off + entry_recordLength window off) = Some rest
           \<and> offs = off # rest"
  using assms
  by (subst (asm) dir_entries.simps; simp split: if_splits option.splits)+

lemma dir_entries_end:
  assumes "dir_entries window fsize fsize = Some offs"
  shows "offs = []"
  using assms by (subst (asm) dir_entries.simps) simp

lemma readEntries_entry:
  assumes "dir_entries window fsize off = Some offs" "off \<noteq> fsize"
  shows "snd (readEntries window fsize off)
    = Inr (Some (stored_name window off), off + entry_recordLength window off)"
  using dir_entries_step(1-3) [OF assms] assms(2)
  by (simp add: readEntries_def Let_def sizeof_DiskDirEntry_def stored_name_def)

lemma readEntries_calls_walk:
  "dir_entries window fsize off = Some offs \<Longrightarrow> k \<le> length offs \<Longrightarrow>
   readEntries_calls window fsize off k =
     map (\<lambda>e. (Some (stored_name window e), e + entry_recordLength window e)) (take k offs)"
proof (induction k arbitrary: off offs)
  case 0
  show ?case by simp
next
  case (Suc k)
  have ne: "off \<noteq> fsize"
    using Suc.prems dir_entries_end [of window fsize offs] by auto
  from dir_entries_step(4) [OF Suc.prems(1) ne] obtain rest where
    rest: "dir_entries window fsize (off + entry_recordLength window off) = Some rest"
    and offs: "offs = off # rest"
    by blast
  have "k \<le> length rest" using Suc.prems(2) offs by simp
  from Suc.IH [OF rest this] show ?case
    by (simp add: readEntries_entry [OF Suc.prems(1) ne] offs)
qed

lemma dir_entries_sums:
  "dir_entries window fsize off = Some offs \<Longrightarrow> i < length offs \<Longrightarrow>
   offs ! i + entry_recordLength window (offs ! i)
     = off + sum_list (map (entry_recordLength window) (take (Suc i) offs))"
proof (induction i arbitrary: off offs)
  case 0
  have ne: "off \<noteq> fsize"
    using "0.prems" dir_entries_end [of window fsize offs] by auto
  from dir_entries_step(4) [OF "0.prems"(1) ne] show ?case by auto
next
  case (Suc i)
  have ne: "off \<noteq> fsize"
    using Suc.prems dir_entries_end [of window fsize offs] by auto
  from dir_entries_step(4) [OF Suc.prems(1) ne] obtain rest where
    rest: "dir_entries window fsize (off + entry_recordLength window off) = Some rest"
    and offs: "offs = off # rest"
    by blast
  have "i < length rest" using Suc.prems(2) offs by simp
  from Suc.IH [OF rest this] show ?case
    by (simp add: offs)
qed

lemma dir_entries_total:
  "dir_entries window fsize off = Some offs \<Longrightarrow>
   off + sum_list (map (entry_recordLength window) offs) = fsize"
proof (induction window fsize off arbitrary: offs rule: dir_entries.induct)
  case (1 window fsize off)
  show ?case
  proof (cases "off = fsize")
    case True
    with "1.prems" dir_entries_end [of window fsize offs] show ?thesis by simp
  next
    case False
    note st = dir_entries_step [OF "1.prems" False]
    from st(4) obtain rest where
      rest: "dir_entries window fsize (off + entry_recordLength window off) = Some rest"
      and offs: "offs = off # rest"
      by blast
    have "off < fsize \<and> 8 + entry_nameLength window off \<le> entry_recordLength window off
        \<and> off + entry_recordLength window off \<le> fsize"
      using st(1-3) by simp
    from "1.IH" [OF False this rest] show ?thesis
      by (simp add: offs)
  qed
qed

lemma readEntries_absent_iff:
  "(\<exists>offset'. snd (readEntries window fsize offset) = Inr (None, offset')) \<longleftrightarrow>
   offset = fsize"
  by (auto simp: readEntries_def Let_def)

text \<open>
  Claim C8. For every well-formed directory and a cursor at offset 0, the first \<open>k\<close>
  calls of \<^verbatim>\<open>readEntries\<close> return the names of the first \<open>k\<close> records in on-disk order;
  the offset after call \<open>i\<close> is the sum of the first \<open>i\<close> record lengths; the record
  lengths sum to the file size, where the next call returns absent; and a call returns
  absent exactly when the cursor is at the file size.
\<close>

theorem readEntries_walk:
  assumes wf: "well_formed_dir window fsize"
  shows "(\<forall>k\<le>length (dir_offsets window fsize).
            readEntries_calls window fsize 0 k =
              map (\<lambda>e. (Some (stored_name window e), e + entry_recordLength window e))
                (take k (dir_offsets window fsize)))
    \<and> (\<forall>i<length (dir_offsets window fsize).
          dir_offsets window fsize ! i + entry_recordLength window (dir_offsets window fsize ! i)
            = sum_list (map (entry_recordLength window) (take (Suc i) (dir_offsets window fsize))))
    \<and> sum_list (map (entry_recordLength window) (dir_offsets window fsize)) = fsize
    \<and> snd (readEntries window fsize fsize) = Inr (None, fsize)
    \<and> (\<forall>offset. (\<exists>offset'. snd (readEntries window fsize offset) = Inr (None, offset'))
          \<longleftrightarrow> offset = fsize)"
proof -
  from wf obtain offs where offs: "dir_entries window fsize 0 = Some offs"
    by (auto simp: well_formed_dir_def)
  then have d: "dir_offsets window fsize = offs"
    by (simp add: dir_offsets_def)
  have a: "\<forall>k\<le>length offs. readEntries_calls window fsize 0 k =
      map (\<lambda>e. (Some (stored_name window e), e + entry_recordLength window e)) (take k offs)"
    using readEntries_calls_walk [OF offs] by blast
  have b: "\<forall>i<length offs. offs ! i + entry_recordLength window (offs ! i)
      = sum_list (map (entry_recordLength window) (take (Suc i) offs))"
    using dir_entries_sums [OF offs] by simp
  have c: "sum_list (map (entry_recordLength window) offs) = fsize"
    using dir_entries_total [OF offs] by simp
  have e: "snd (readEntries window fsize fsize) = Inr (None, fsize)"
    by (simp add: readEntries_def)
  show ?thesis
    unfolding d using a b c e readEntries_absent_iff [of window fsize] by blast
qed

text \<open>
  Claim C8, witness: scenario S4 of the specification, record lengths 12, 12, 16 and 984 in
  a directory of 1024 bytes. The offsets after the four calls are 12, 24, 40 and 1024, and
  the call at offset 1024 returns absent.
\<close>

theorem readEntries_walk_witness:
  "well_formed_dir dir_S4 1024
   \<and> map (entry_recordLength dir_S4) (dir_offsets dir_S4 1024) = [12, 12, 16, 984]
   \<and> readEntries_calls dir_S4 1024 0 4 =
       [(Some [46], 12), (Some [46, 46], 24), (Some [104, 101, 108, 108, 111], 40),
        (Some [102, 111, 111], 1024)]
   \<and> map snd (readEntries_calls dir_S4 1024 0 4) = [12, 24, 40, 1024]
   \<and> snd (readEntries dir_S4 1024 1024) = Inr (None, 1024)"
proof -
  note t = readEntries_walk [OF dir_S4_wf]
  from t have "\<forall>k\<le>length (dir_offsets dir_S4 1024).
            readEntries_calls dir_S4 1024 0 k =
              map (\<lambda>e. (Some (stored_name dir_S4 e), e + entry_recordLength dir_S4 e))
                (take k (dir_offsets dir_S4 1024))"
    by blast
  then have "4 \<le> length (dir_offsets dir_S4 1024) \<longrightarrow>
            readEntries_calls dir_S4 1024 0 4 =
              map (\<lambda>e. (Some (stored_name dir_S4 e), e + entry_recordLength dir_S4 e))
                (take 4 (dir_offsets dir_S4 1024))"
    by (rule spec)
  then have calls: "readEntries_calls dir_S4 1024 0 4 =
       [(Some [46], 12), (Some [46, 46], 24), (Some [104, 101, 108, 108, 111], 40),
        (Some [102, 111, 111], 1024)]"
    by (simp add: dir_S4_offsets stored_names_S4 fields_S4)
  from t have "snd (readEntries dir_S4 1024 1024) = Inr (None, 1024)"
    by blast
  then show ?thesis
    using dir_S4_wf calls by (simp add: dir_S4_offsets fields_S4)
qed


end
